theory Spec2Isabelle
  imports Main "HOL-Library.Log_Nat"
begin

section \<open>Python values used by the receipt generator\<close>

text \<open>
  The program is \<^verbatim>\<open>recibo_web_app.py\<close>. Its core is \<^verbatim>\<open>valor_por_extenso\<close> (an amount
  written out in Brazilian Portuguese) and \<^verbatim>\<open>gerar_recibo_pdf_memoria\<close> (the page of the
  receipt). A Python \<^verbatim>\<open>str\<close> is a \<^typ>\<open>string\<close>: one \<^typ>\<open>char\<close> per code point, for the
  code points below 256 (ASCII and Latin-1, which covers the Portuguese text of the
  program), so that \<^const>\<open>length\<close> counts what Python's \<^verbatim>\<open>len\<close> counts.
  Exceptions are values of \<open>error\<close>; a function that may raise returns \<open>error + 'a\<close>.
\<close>

datatype error = ValueError | OverflowError | KeyError

subsection \<open>Binary floating point\<close>

text \<open>
  A Python \<^verbatim>\<open>float\<close> is an IEEE 754 binary64 number: a sign and a magnitude, an infinity,
  or a NaN. The magnitude of a finite number is kept as the rational it denotes; every
  operation computes the exact result and rounds it to the nearest representable number,
  ties to the even significand (53 bits, least exponent \<open>-1074\<close>).
\<close>

datatype pyfloat = Finite bool rat | Infinite bool | NaN

definition round_half_even :: "rat \<Rightarrow> int" where
  "round_half_even x =
     (let f = \<lfloor>x\<rfloor>; r = x - of_int f
      in if r < 1 / 2 then f
         else if 1 / 2 < r then f + 1
         else if even f then f else f + 1)"

definition pow2 :: "int \<Rightarrow> rat" where
  "pow2 k = (if 0 \<le> k then 2 ^ nat k else 1 / 2 ^ nat (- k))"

text \<open>The binary exponent of a positive rational: \<open>2 ^ ilog2 a \<le> a < 2 ^ (ilog2 a + 1)\<close>.\<close>

definition ilog2 :: "rat \<Rightarrow> int" where
  "ilog2 a =
     (let (p, q) = quotient_of a; k = bitlen p - bitlen q
      in if pow2 k \<le> a then k else k - 1)"

definition rnd_mag :: "rat \<Rightarrow> rat" where
  "rnd_mag a =
     (if a = 0 then 0
      else let e = max (ilog2 a - 52) (- 1074)
           in of_int (round_half_even (a / pow2 e)) * pow2 e)"

definition rnd :: "rat \<Rightarrow> rat" where
  "rnd x = (if x < 0 then - rnd_mag (- x) else rnd_mag x)"

text \<open>
  A rounded magnitude of \<open>2 ^ 1024\<close> or more, that is one of binary exponent 1024 or more,
  overflows to an infinity.
\<close>

definition mk_float :: "bool \<Rightarrow> rat \<Rightarrow> pyfloat" where
  "mk_float neg a =
     (let r = rnd_mag a
      in if r \<noteq> 0 \<and> 1024 \<le> ilog2 r then Infinite neg else Finite neg r)"

text \<open>
  Arithmetic on the values of finite numbers. The program subtracts, multiplies, adds and
  divides numbers far below the overflow threshold only, and never looks at the sign of a
  zero result of these, so the operations are kept on the values.
\<close>

definition float_add :: "rat \<Rightarrow> rat \<Rightarrow> rat" where
  "float_add x y = rnd (x + y)"

definition float_sub :: "rat \<Rightarrow> rat \<Rightarrow> rat" where
  "float_sub x y = rnd (x - y)"

definition float_mul :: "rat \<Rightarrow> rat \<Rightarrow> rat" where
  "float_mul x y = rnd (x * y)"

definition float_div :: "rat \<Rightarrow> rat \<Rightarrow> rat" where
  "float_div x y = rnd (x / y)"

text \<open>
  The conversion of a Python \<^verbatim>\<open>int\<close> that meets a float in an operation. It raises beyond
  the range of the floats; the program converts the truncation of a finite float and
  small constants only.
\<close>

definition float_of_int :: "int \<Rightarrow> rat" where
  "float_of_int n = rnd (of_int n)"

fun fval :: "pyfloat \<Rightarrow> rat" where
  "fval (Finite neg a) = (if neg then - a else a)"
| "fval (Infinite neg) = 0"
| "fval NaN = 0"

text \<open>\<^verbatim>\<open>int(v)\<close> truncates towards zero and raises on an infinity or a NaN.\<close>

fun py_int :: "pyfloat \<Rightarrow> error + int" where
  "py_int (Finite neg a) = Inr (if neg then - \<lfloor>a\<rfloor> else \<lfloor>a\<rfloor>)"
| "py_int (Infinite neg) = Inl OverflowError"
| "py_int NaN = Inl ValueError"

text \<open>\<^verbatim>\<open>round(x)\<close> of a finite float is the nearest integer, ties to the even one.\<close>

definition py_round :: "rat \<Rightarrow> int" where
  "py_round x = round_half_even x"

subsection \<open>\<^verbatim>\<open>float(value)\<close> of a string\<close>

text \<open>
  \<^verbatim>\<open>float\<close> strips white space at both ends and accepts an optional sign followed by
  \<^verbatim>\<open>inf\<close>, \<^verbatim>\<open>infinity\<close> or \<^verbatim>\<open>nan\<close> in any case, or by a decimal number with an optional
  exponent; a single underscore may stand between two digits. Anything else raises
  \<^verbatim>\<open>ValueError\<close>. The decimal number is rounded correctly.
\<close>

definition is_digit :: "char \<Rightarrow> bool" where
  "is_digit c = (c \<in> set ''0123456789'')"

definition digit_val :: "char \<Rightarrow> int" where
  "digit_val c = of_char c - 48"

definition digits_val :: "string \<Rightarrow> int" where
  "digits_val ds = foldl (\<lambda>acc c. 10 * acc + digit_val c) 0 ds"

definition is_space :: "char \<Rightarrow> bool" where
  "is_space c = (c \<in> set [CHR 0x09, CHR 0x0A, CHR 0x0B, CHR 0x0C, CHR 0x0D, CHR 0x20,
                            CHR 0x85, CHR 0xA0])"

definition lower :: "char \<Rightarrow> char" where
  "lower c =
     (case map_of (zip ''ABCDEFGHIJKLMNOPQRSTUVWXYZ'' ''abcdefghijklmnopqrstuvwxyz'') c of
        None \<Rightarrow> c
      | Some l \<Rightarrow> l)"

text \<open>
  Underscores: allowed only after a digit and before a digit. The first argument is the
  previous character (NUL at the start).
\<close>

fun strip_underscores :: "char \<Rightarrow> string \<Rightarrow> string option" where
  "strip_underscores prev [] = (if prev = CHR ''_'' then None else Some [])"
| "strip_underscores prev (c # cs) =
     (if c = CHR ''_'' then (if is_digit prev then strip_underscores c cs else None)
      else if prev = CHR ''_'' \<and> \<not> is_digit c then None
      else map_option ((#) c) (strip_underscores c cs))"

definition strip :: "string \<Rightarrow> string" where
  "strip s = rev (dropWhile is_space (rev (dropWhile is_space s)))"

definition split_sign :: "string \<Rightarrow> bool \<times> string" where
  "split_sign s =
     (case s of
        [] \<Rightarrow> (False, [])
      | c # cs \<Rightarrow> if c = CHR ''-'' then (True, cs)
                  else if c = CHR ''+'' then (False, cs)
                  else (False, s))"

definition parse_exponent :: "string \<Rightarrow> int option" where
  "parse_exponent s =
     (case s of
        [] \<Rightarrow> Some 0
      | c # cs \<Rightarrow>
          if c = CHR ''e'' \<or> c = CHR ''E'' then
            (let (neg, ds) = split_sign cs
             in if ds \<noteq> [] \<and> list_all is_digit ds
                then Some (if neg then - digits_val ds else digits_val ds)
                else None)
          else None)"

text \<open>A decimal number \<open>m \<times> 10 ^ e\<close>, returned as \<open>(m, e)\<close>.\<close>

definition parse_number :: "string \<Rightarrow> (int \<times> int) option" where
  "parse_number s =
     (let ip = takeWhile is_digit s; r1 = dropWhile is_digit s;
          (fp, r2) = (case r1 of
                        [] \<Rightarrow> ([], [])
                      | c # r \<Rightarrow> if c = CHR ''.''
                                 then (takeWhile is_digit r, dropWhile is_digit r)
                                 else ([], r1))
      in if ip = [] \<and> fp = [] then None
         else (case parse_exponent r2 of
                 None \<Rightarrow> None
               | Some ex \<Rightarrow> Some (digits_val (ip @ fp), ex - int (length fp))))"

definition pow10 :: "int \<Rightarrow> rat" where
  "pow10 k = (if 0 \<le> k then 10 ^ nat k else 1 / 10 ^ nat (- k))"

definition py_float :: "string \<Rightarrow> error + pyfloat" where
  "py_float value =
     (case strip_underscores (CHR 0x00) value of
        None \<Rightarrow> Inl ValueError
      | Some s0 \<Rightarrow>
          (let (neg, s) = split_sign (strip s0); l = map lower s
           in if l = ''inf'' \<or> l = ''infinity'' then Inr (Infinite neg)
              else if l = ''nan'' then Inr NaN
              else (case parse_number s of
                      None \<Rightarrow> Inl ValueError
                    | Some (m, e) \<Rightarrow> Inr (mk_float neg (of_int m * pow10 e)))))"

subsection \<open>\<^verbatim>\<open>format(x, ',.2f')\<close>\<close>

text \<open>
  Two decimals, correctly rounded (ties to even) from the exact value, the integer digits
  grouped in threes by commas, a minus sign when the sign bit is set.
\<close>

definition digit_char :: "int \<Rightarrow> char" where
  "digit_char n = char_of (48 + n)"

text \<open>The decimal digits of a non-negative integer.\<close>

function dec_digits :: "int \<Rightarrow> string" where
  "dec_digits n =
     (if n < 10 then [digit_char n] else dec_digits (n div 10) @ [digit_char (n mod 10)])"
  by pat_completeness auto
termination
  by (relation "measure nat") auto

declare dec_digits.simps [simp del]

fun group3 :: "string \<Rightarrow> string" where
  "group3 ds =
     (if length ds \<le> 3 then ds
      else group3 (take (length ds - 3) ds) @ '','' @ drop (length ds - 3) ds)"

declare group3.simps [simp del]

fun format_2f :: "pyfloat \<Rightarrow> string" where
  "format_2f (Finite neg a) =
     (let n = round_half_even (a * 100)
      in (if neg then ''-'' else '''') @ group3 (dec_digits (n div 100)) @ ''.'' @
         [digit_char (n mod 100 div 10), digit_char (n mod 10)])"
| "format_2f (Infinite neg) = (if neg then ''-inf'' else ''inf'')"
| "format_2f NaN = ''nan''"

text \<open>\<^verbatim>\<open>s.replace(a, b)\<close> for one-character \<^verbatim>\<open>a\<close> and \<^verbatim>\<open>b\<close>.\<close>

definition replace :: "char \<Rightarrow> char \<Rightarrow> string \<Rightarrow> string" where
  "replace a b s = map (\<lambda>c. if c = a then b else c) s"

text \<open>\<^verbatim>\<open>sep.join(parts)\<close>.\<close>

fun join :: "string \<Rightarrow> string list \<Rightarrow> string" where
  "join sep [] = []"
| "join sep [p] = p"
| "join sep (p # q # ps) = p @ sep @ join sep (q # ps)"

section \<open>The amount in words\<close>

text \<open>
  \<^verbatim>\<open>num2words(n, lang='pt_BR')\<close> belongs to the library \<^verbatim>\<open>num2words\<close>, not to the program:
  it is the first argument of the model, and every theorem about all amounts holds for
  every such function.
  \<^verbatim>\<open>
  def valor_por_extenso(value):
      try:
          v = float(value)
      except:
          return ''
      inteiro = int(v)
      centavos = int(round((v - inteiro) * 100))
      partes = []
      if inteiro > 0:
          ext = num2words(inteiro, lang='pt_BR')
          moeda = 'real' if inteiro == 1 else 'reais'
          partes.append(f"{ext} {moeda}")
      if centavos > 0:
          extc = num2words(centavos, lang='pt_BR')
          cent = 'centavo' if centavos == 1 else 'centavos'
          partes.append(f"{extc} {cent}")
      if not partes:
          return 'zero reais'
      return ' e '.join(partes)
  \<close>
\<close>

definition centavos_of :: "pyfloat \<Rightarrow> int \<Rightarrow> int" where
  "centavos_of v inteiro =
     py_round (float_mul (float_sub (fval v) (float_of_int inteiro)) (float_of_int 100))"

definition partes_of :: "(int \<Rightarrow> string) \<Rightarrow> int \<Rightarrow> int \<Rightarrow> string list" where
  "partes_of num2words inteiro centavos =
     (let partes = [];
          partes = (if 0 < inteiro
                    then partes @ [num2words inteiro @ '' '' @
                                   (if inteiro = 1 then ''real'' else ''reais'')]
                    else partes);
          partes = (if 0 < centavos
                    then partes @ [num2words centavos @ '' '' @
                                   (if centavos = 1 then ''centavo'' else ''centavos'')]
                    else partes)
      in partes)"

definition valor_por_extenso :: "(int \<Rightarrow> string) \<Rightarrow> string \<Rightarrow> error + string" where
  "valor_por_extenso num2words value =
     (case py_float value of
        Inl _ \<Rightarrow> Inr ''''
      | Inr v \<Rightarrow>
          (case py_int v of
             Inl e \<Rightarrow> Inl e
           | Inr inteiro \<Rightarrow>
               let centavos = centavos_of v inteiro;
                   partes = partes_of num2words inteiro centavos
               in if partes = [] then Inr ''zero reais''
                  else Inr (join '' e '' partes)))"

text \<open>
  An instance of the library function for the closed statements below: the Brazilian
  Portuguese cardinals from 0 to 999. Outside this range the instance is left
  unspecified; the theorems about all amounts do not use it.
\<close>

definition units_pt_BR :: "string list" where
  "units_pt_BR =
     [''zero'', ''um'', ''dois'', ''tr'' @ [CHR 0xEA] @ ''s'', ''quatro'', ''cinco'', ''seis'',
      ''sete'', ''oito'', ''nove'', ''dez'', ''onze'', ''doze'', ''treze'', ''catorze'',
      ''quinze'', ''dezesseis'', ''dezessete'', ''dezoito'', ''dezenove'']"

definition tens_pt_BR :: "string list" where
  "tens_pt_BR =
     [''vinte'', ''trinta'', ''quarenta'', ''cinquenta'', ''sessenta'', ''setenta'',
      ''oitenta'', ''noventa'']"

definition hundreds_pt_BR :: "string list" where
  "hundreds_pt_BR =
     [''cento'', ''duzentos'', ''trezentos'', ''quatrocentos'', ''quinhentos'',
      ''seiscentos'', ''setecentos'', ''oitocentos'', ''novecentos'']"

definition below_100_pt_BR :: "int \<Rightarrow> string" where
  "below_100_pt_BR n =
     (if n < 20 then units_pt_BR ! nat n
      else tens_pt_BR ! nat (n div 10 - 2) @
           (if n mod 10 = 0 then [] else '' e '' @ units_pt_BR ! nat (n mod 10)))"

definition num2words_pt_BR :: "int \<Rightarrow> string" where
  "num2words_pt_BR n =
     (if n < 0 \<or> 1000 \<le> n then undefined
      else if n < 100 then below_100_pt_BR n
      else if n = 100 then ''cem''
      else hundreds_pt_BR ! nat (n div 100 - 1) @
           (if n mod 100 = 0 then [] else '' e '' @ below_100_pt_BR (n mod 100)))"

section \<open>The page of the receipt\<close>

text \<open>
  \<^verbatim>\<open>gerar_recibo_pdf_memoria(d)\<close> draws on a \<^verbatim>\<open>reportlab\<close> canvas and returns the buffer the
  canvas was saved to. The model returns the drawing calls in the order the program makes
  them; turning them into the bytes of a PDF file is the library's part. The record \<open>d\<close>
  is a dictionary from field names to the strings of the form.
\<close>

datatype canvas_op =
    SetLineWidth int
  | Rect rat rat rat rat bool bool
  | SetFont string int
  | SetFillColorRGB rat rat rat
  | SetFillColor_black
  | DrawString rat rat string
  | DrawRightString rat rat string
  | DrawCentredString rat rat string
  | Line rat rat rat rat
  | ShowPage
  | Save

type_synonym record_dict = "string \<rightharpoonup> string"

text \<open>\<^verbatim>\<open>d.get(k, default)\<close> and \<^verbatim>\<open>d[k]\<close>.\<close>

definition get :: "record_dict \<Rightarrow> string \<Rightarrow> string \<Rightarrow> string" where
  "get d k dflt = (case d k of None \<Rightarrow> dflt | Some x \<Rightarrow> x)"

definition getitem :: "record_dict \<Rightarrow> string \<Rightarrow> error + string" where
  "getitem d k = (case d k of None \<Rightarrow> Inl KeyError | Some x \<Rightarrow> Inr x)"

subsection \<open>Geometry\<close>

text \<open>
  The units and the page size of \<^verbatim>\<open>reportlab\<close>: \<^verbatim>\<open>inch = 72.0\<close>, \<^verbatim>\<open>cm = inch / 2.54\<close>,
  \<^verbatim>\<open>mm = cm * 0.1\<close>, \<^verbatim>\<open>A4 = (210*mm, 297*mm)\<close>. A decimal literal is the nearest float.
\<close>

definition inch :: rat where "inch = 72"
definition cm :: rat where "cm = float_div inch (rnd (254 / 100))"
definition mm :: rat where "mm = float_mul cm (rnd (1 / 10))"
definition width :: rat where "width = float_mul 210 mm"
definition height :: rat where "height = float_mul 297 mm"

definition margin :: rat where "margin = float_mul 12 mm"

definition box_w :: rat where "box_w = float_mul 55 mm"
definition box_h :: rat where "box_h = float_mul 14 mm"
definition box_x :: rat where
  "box_x = float_sub (float_sub (float_sub width margin) box_w) (float_mul 6 mm)"
definition box_y :: rat where
  "box_y = float_sub (float_sub (float_sub height margin) box_h) (float_mul 14 mm)"

definition recebemos_y :: rat where "recebemos_y = float_sub box_y 18"
definition nome_box_w :: rat where
  "nome_box_w =
     float_sub (float_sub (float_sub width (float_mul 2 margin)) box_w) (float_mul 24 mm)"
definition nome_box_x :: rat where "nome_box_x = float_add margin 10"
definition nome_box_h :: rat where "nome_box_h = 26"
definition nome_box_y :: rat where
  "nome_box_y = float_sub (float_sub recebemos_y 8) nome_box_h"

definition extenso_y_top :: rat where "extenso_y_top = float_sub nome_box_y 10"
definition ext_box_x :: rat where "ext_box_x = float_add margin 10"
definition ext_box_w :: rat where
  "ext_box_w = float_sub (float_sub width (float_mul 2 margin)) 20"
definition ext_box_h :: rat where "ext_box_h = 36"
definition ext_box_y :: rat where
  "ext_box_y = float_sub (float_sub extenso_y_top 8) ext_box_h"

definition ref_y :: rat where "ref_y = float_sub ext_box_y 8"

definition discr_x :: rat where "discr_x = float_add margin 10"
definition discr_y :: rat where "discr_y = float_sub ref_y 26"
definition discr_w :: rat where "discr_w = float_mul 90 mm"
definition discr_h :: rat where "discr_h = float_mul 60 mm"

definition assin_x :: rat where "assin_x = float_add (float_add discr_x discr_w) 12"
definition assin_y :: rat where "assin_y = float_sub discr_y 10"
definition assin_w :: rat where
  "assin_w = float_sub (float_sub (float_sub width margin) assin_x) 8"
definition assin_h :: rat where "assin_h = float_sub discr_h 8"

definition rodape_y :: rat where "rodape_y = float_add margin 28"

subsection \<open>The amount as currency\<close>

text \<open>
  \<^verbatim>\<open>f"R$ {float(d['valor']):,.2f}".replace(',', 'X').replace('.', ',').replace('X', '.')\<close>
\<close>

definition valor_formatado :: "pyfloat \<Rightarrow> string" where
  "valor_formatado v =
     replace (CHR ''X'') (CHR ''.'')
       (replace (CHR ''.'') (CHR '','')
          (replace (CHR '','') (CHR ''X'') (''R$ '' @ format_2f v)))"

subsection \<open>The lines of the amount in words\<close>

text \<open>
  \<^verbatim>\<open>
  extenso = d.get('valor_extenso', '')
  if extenso and not extenso.endswith('.'):
      extenso = extenso + '.'
  max_chars_line = 90
  lines = []
  while extenso:
      if len(extenso) <= max_chars_line:
          lines.append(extenso)
          break
      part = extenso[:max_chars_line]
      last_space = part.rfind(' ')
      if last_space == -1:
          lines.append(part)
          extenso = extenso[max_chars_line:]
      else:
          lines.append(extenso[:last_space])
          extenso = extenso[last_space+1:]
  \<close>
\<close>

definition endswith :: "string \<Rightarrow> string \<Rightarrow> bool" where
  "endswith s suffix =
     (length suffix \<le> length s \<and> drop (length s - length suffix) s = suffix)"

text \<open>\<^verbatim>\<open>s.rfind(c)\<close>: the highest index of \<open>c\<close> in \<open>s\<close>, or \<open>-1\<close>.\<close>

fun rfind :: "string \<Rightarrow> char \<Rightarrow> int" where
  "rfind [] c = - 1"
| "rfind (x # xs) c =
     (let r = rfind xs c
      in if r \<noteq> - 1 then r + 1 else if x = c then 0 else - 1)"

definition max_chars_line :: nat where
  "max_chars_line = 90"

definition with_period :: "string \<Rightarrow> string" where
  "with_period extenso =
     (if extenso \<noteq> [] \<and> \<not> endswith extenso ''.'' then extenso @ ''.'' else extenso)"

function lines_loop :: "string \<Rightarrow> string list \<Rightarrow> string list" where
  "lines_loop extenso lines =
     (if extenso = [] then lines
      else if length extenso \<le> max_chars_line then lines @ [extenso]
      else let part = take max_chars_line extenso;
               last_space = rfind part (CHR '' '')
           in if last_space = - 1
              then lines_loop (drop max_chars_line extenso) (lines @ [part])
              else lines_loop (drop (nat (last_space + 1)) extenso)
                     (lines @ [take (nat last_space) extenso]))"
  by pat_completeness auto

termination lines_loop
proof (relation "measure (\<lambda>(extenso, lines). length extenso)", goal_cases)
  case 1
  show ?case by simp
next
  case (2 extenso lines part last_space)
  then show ?case by (simp add: max_chars_line_def)
next
  case (3 extenso lines part last_space)
  have "- 1 \<le> rfind s c" for s c
    by (induction s) (auto simp: Let_def)
  then have "- 1 \<le> last_space" using 3 by simp
  with 3 show ?case by simp
qed

declare lines_loop.simps [simp del]

definition extenso_lines :: "record_dict \<Rightarrow> string list" where
  "extenso_lines d = lines_loop (with_period (get d ''valor_extenso'' [])) []"

text \<open>
  \<^verbatim>\<open>
  for ln in lines[:2]:
      c.drawString(ext_box_x + 6, text_y, ln)
      text_y -= 12
  \<close>
\<close>

fun draw_lines :: "rat \<Rightarrow> string list \<Rightarrow> canvas_op list" where
  "draw_lines text_y [] = []"
| "draw_lines text_y (l # ls) =
     DrawString (float_add ext_box_x 6) text_y l # draw_lines (float_sub text_y 12) ls"

subsection \<open>The drawing calls\<close>

definition gerar_recibo_pdf_memoria :: "record_dict \<Rightarrow> error + canvas_op list" where
  "gerar_recibo_pdf_memoria d =
     (let empresa = get d ''empresa_nome'' ''ESTILU CONTABILIDADE LTDA'';
          empresa_cnpj = get d ''empresa_cnpj'' ''CNPJ: 26.631.734/0001-62'';
          empresa_end = get d ''empresa_end''
            (''Rua Orat'' @ [CHR 0xF3] @ ''rio, 1683 - Parque das Na'' @ [CHR 0xE7, CHR 0xF5] @
             ''es - Santo Andr'' @ [CHR 0xE9] @ '' - SP'')
      in case getitem d ''valor'' of
           Inl e \<Rightarrow> Inl e
         | Inr valor \<Rightarrow>
        (case py_float valor of
           Inl e \<Rightarrow> Inl e
         | Inr v \<Rightarrow>
        (case getitem d ''nome'' of
           Inl e \<Rightarrow> Inl e
         | Inr nome \<Rightarrow>
        Inr (
         [SetLineWidth 2,
          Rect margin margin (float_sub width (float_mul 2 margin))
            (float_sub height (float_mul 2 margin)) True False,
          SetFont ''Helvetica-Bold'' 14,
          DrawCentredString (float_div width 2) (float_sub (float_sub height margin) 8) empresa,
          SetFont ''Helvetica'' 8,
          DrawCentredString (float_div width 2) (float_sub (float_sub height margin) 22)
            (empresa_cnpj @ ''   '' @ empresa_end),
          SetFillColorRGB 1 1 (rnd (6 / 10)),
          Rect box_x box_y box_w box_h False True,
          SetLineWidth 1,
          SetFillColor_black,
          Rect box_x box_y box_w box_h True False,
          SetFont ''Helvetica-Bold'' 11,
          DrawRightString (float_sub (float_add box_x box_w) 8)
            (float_sub (float_add box_y (float_div box_h 2)) 4) (valor_formatado v),
          SetFont ''Helvetica'' 9,
          DrawString (float_add margin 10) (float_add recebemos_y 12) ''RECEBEMOS DE:'',
          SetFillColorRGB 1 1 (rnd (9 / 10)),
          Rect nome_box_x nome_box_y nome_box_w nome_box_h False True,
          SetFillColor_black,
          SetLineWidth 1,
          Rect nome_box_x nome_box_y nome_box_w nome_box_h True False,
          SetFont ''Helvetica-Bold'' 10,
          DrawString (float_add nome_box_x 6) (float_add nome_box_y 6) nome,
          SetFont ''Helvetica'' 9,
          DrawString (float_add margin 10) extenso_y_top (''L'' @ [CHR 0xCD] @ ''QUIDA DE:''),
          SetFillColorRGB 1 1 (rnd (9 / 10)),
          Rect ext_box_x ext_box_y ext_box_w ext_box_h False True,
          SetFillColor_black,
          Rect ext_box_x ext_box_y ext_box_w ext_box_h True False,
          SetFont ''Helvetica'' 9] @
         draw_lines (float_sub (float_add ext_box_y ext_box_h) 12) (take 2 (extenso_lines d)) @
         [SetFont ''Helvetica'' 9,
          DrawString (float_add margin 10) ref_y ''REFERENTE:'',
          SetFont ''Helvetica-Bold'' 9,
          DrawString (float_add margin 80) ref_y (get d ''referente'' []),
          Rect discr_x (float_sub discr_y discr_h) discr_w discr_h True False,
          SetFont ''Helvetica-Bold'' 9,
          DrawString (float_add discr_x 8) (float_sub discr_y 12)
            (''DISCRIMINA'' @ [CHR 0xC7, CHR 0xC3] @ ''O DOS VALORES''),
          SetFont ''Helvetica'' 9,
          DrawString (float_add discr_x 10) (float_sub discr_y 30) ''MENSALIDADE'',
          DrawRightString (float_sub (float_add discr_x discr_w) 10) (float_sub discr_y 30)
            (valor_formatado v),
          DrawString (float_add discr_x 10) (float_sub discr_y 46) ''ALT. CONTRATO'',
          DrawRightString (float_sub (float_add discr_x discr_w) 10) (float_sub discr_y 46)
            ''R$ -'',
          DrawString (float_add discr_x 10) (float_sub discr_y 62)
            (''REGULARIZA'' @ [CHR 0xC7, CHR 0xC3] @ ''O''),
          DrawRightString (float_sub (float_add discr_x discr_w) 10) (float_sub discr_y 62)
            ''R$ -'',
          SetFont ''Helvetica-Bold'' 9,
          DrawString (float_add discr_x 10) (float_sub discr_y 86) ''VALOR TOTAL'',
          DrawRightString (float_sub (float_add discr_x discr_w) 10) (float_sub discr_y 86)
            (valor_formatado v),
          Rect assin_x (float_sub assin_y assin_h) assin_w assin_h True False,
          SetFont ''Helvetica'' 9,
          DrawString (float_add assin_x 8) (float_sub assin_y 16) ''NOME:'',
          Line (float_add assin_x 8) (float_sub assin_y 36)
            (float_sub (float_add assin_x assin_w) 8) (float_sub assin_y 36),
          DrawString (float_add assin_x 8) (float_sub assin_y 58) ''CNPJ/CPF:'',
          Line (float_add assin_x 8) (float_sub assin_y 78)
            (float_sub (float_add assin_x assin_w) 8) (float_sub assin_y 78),
          SetFont ''Helvetica-Bold'' 9,
          DrawString (float_add assin_x 10) (float_sub assin_y 28) nome,
          DrawString (float_add assin_x 10) (float_sub assin_y 70) (get d ''cpf_cnpj'' []),
          SetFont ''Helvetica'' 9,
          DrawString (float_add margin 10) (float_add rodape_y 6)
            (''Santo Andr'' @ [CHR 0xE9] @ '', '' @ get d ''data_recibo'' []),
          SetFont ''Helvetica'' 8,
          DrawString (float_add margin 10) (float_sub rodape_y 8)
            (''Observa'' @ [CHR 0xE7, CHR 0xF5] @ ''es: '' @ get d ''observacoes'' []),
          SetFont ''Helvetica-Bold'' 9,
          DrawRightString (float_sub (float_sub width margin) 8) (float_add margin 12) empresa,
          ShowPage,
          Save]))))"

subsection \<open>Reading the page\<close>

text \<open>
  The lines of the amount in words are the \<^verbatim>\<open>drawString\<close> calls that follow the first 29
  drawing calls (the frame, the header, the amount box, the payer box and the box of the
  amount in words).
\<close>

fun is_DrawString :: "canvas_op \<Rightarrow> bool" where
  "is_DrawString (DrawString x y t) = True"
| "is_DrawString _ = False"

fun text_of :: "canvas_op \<Rightarrow> string" where
  "text_of (DrawString x y t) = t"
| "text_of (DrawRightString x y t) = t"
| "text_of (DrawCentredString x y t) = t"
| "text_of _ = []"

definition extenso_drawn :: "canvas_op list \<Rightarrow> string list" where
  "extenso_drawn ops = map text_of (takeWhile is_DrawString (drop 29 ops))"

text \<open>
  A row of the table of values is a \<^verbatim>\<open>drawString\<close> of its label followed at once by the
  \<^verbatim>\<open>drawRightString\<close> of its value; \<open>row_value\<close> is the value of the first row with the
  given label.
\<close>

fun row_value :: "string \<Rightarrow> canvas_op list \<Rightarrow> string option" where
  "row_value label [] = None"
| "row_value label [x] = None"
| "row_value label (x # y # ops) =
     (case (x, y) of
        (DrawString _ _ t, DrawRightString _ _ t') \<Rightarrow>
          if t = label then Some t' else row_value label (y # ops)
      | _ \<Rightarrow> row_value label (y # ops))"

section \<open>The words of the specification\<close>

text \<open>
  The integer digits of a formatted amount as the specification describes them: groups of
  three digits counted from the right, the leftmost group of one to three digits, with a
  full stop between two groups. \<open>grouped_rev\<close> reads the string from its right end.
\<close>

fun grouped_rev :: "string \<Rightarrow> bool" where
  "grouped_rev (a # b # c # s # rest) =
     (is_digit a \<and> is_digit b \<and> is_digit c \<and> s = CHR ''.'' \<and> rest \<noteq> [] \<and> grouped_rev rest)"
| "grouped_rev ds = (ds \<noteq> [] \<and> list_all is_digit ds)"

definition brl_grouped :: "string \<Rightarrow> bool" where
  "brl_grouped s = grouped_rev (rev s)"

text \<open>The three replacements of \<open>valor_formatado\<close> as one map on characters.\<close>

definition swap_sep :: "char \<Rightarrow> char" where
  "swap_sep c =
     (if c = CHR '','' then CHR ''.'' else if c = CHR ''.'' then CHR '',''
      else if c = CHR ''X'' then CHR ''.'' else c)"

section \<open>Example records\<close>

definition recibo_exemplo :: record_dict where
  "recibo_exemplo =
     [''nome'' \<mapsto> ''Ana'', ''valor'' \<mapsto> ''444444.8'',
      ''valor_extenso'' \<mapsto>
        ''quatrocentos e quarenta e quatro mil, quatrocentos e quarenta e quatro reais e oitenta centavos'']"

definition recibo_longo :: record_dict where
  "recibo_longo =
     [''nome'' \<mapsto> ''Ana'', ''valor'' \<mapsto> ''10'',
      ''valor_extenso'' \<mapsto> replicate 200 (CHR ''a'')]"

section \<open>Representable numbers\<close>

text \<open>
  The magnitudes of the finite floats: a significand below \<open>2 ^ 53\<close> and a binary exponent
  of \<open>-1074\<close> or more. Used in the proofs only.
\<close>

definition is_double :: "rat \<Rightarrow> bool" where
  "is_double a \<longleftrightarrow> (\<exists>m e. a = of_int m * pow2 e \<and> 0 \<le> m \<and> m < 2 ^ 53 \<and> - 1074 \<le> e)"

section \<open>Rounding\<close>

lemma pow2_powi: "pow2 k = 2 powi k"
  by (simp add: pow2_def power_int_def inverse_eq_divide power_one_over)

lemma pow2_pos: "0 < pow2 k"
  by (simp add: pow2_powi)

lemma pow2_add: "pow2 (j + k) = pow2 j * pow2 k"
  by (simp add: pow2_powi power_int_add)

lemma pow2_diff: "pow2 (j - k) = pow2 j / pow2 k"
  by (simp add: pow2_powi power_int_diff)

lemma pow2_less_cancel: "pow2 j < pow2 k \<Longrightarrow> j < k"
proof (rule ccontr)
  assume a: "pow2 j < pow2 k" and "\<not> j < k"
  then have "k \<le> j" by simp
  then have "pow2 k \<le> pow2 j"
    by (simp add: pow2_powi power_int_increasing)
  with a show False by simp
qed

lemma pow2_mono: "j \<le> k \<Longrightarrow> pow2 j \<le> pow2 k"
  by (simp add: pow2_powi power_int_increasing)

lemma pow2_of_nat: "0 \<le> k \<Longrightarrow> pow2 k = of_int (2 ^ nat k)"
  by (simp add: pow2_def)

lemma round_half_even_of_int: "round_half_even (of_int n) = n"
  by (simp add: round_half_even_def)

lemma round_half_even_ge:
  assumes "of_int n \<le> x"
  shows "n \<le> round_half_even x"
proof -
  have "n \<le> \<lfloor>x\<rfloor>" using assms by (simp add: le_floor_iff)
  then show ?thesis by (simp add: round_half_even_def Let_def)
qed

lemma round_half_even_le:
  assumes "x \<le> of_int n"
  shows "round_half_even x \<le> n"
proof (cases "\<lfloor>x\<rfloor> < n")
  case True
  then show ?thesis by (simp add: round_half_even_def Let_def)
next
  case False
  have "\<lfloor>x\<rfloor> \<le> n" using assms by (simp add: floor_le_iff)
  with False have eq: "\<lfloor>x\<rfloor> = n" by simp
  have "of_int \<lfloor>x\<rfloor> \<le> x" by simp
  with eq assms have "x = of_int n" by simp
  then show ?thesis by (simp add: round_half_even_of_int)
qed

lemma ilog2_lower:
  assumes "0 < a"
  shows "pow2 (ilog2 a) \<le> a"
proof -
  obtain p q where pq: "quotient_of a = (p, q)" by (cases "quotient_of a")
  have q: "0 < q" using pq by (rule quotient_of_denom_pos)
  have a: "a = of_int p / of_int q" using pq by (rule quotient_of_div)
  have p: "0 < p" using assms q a by (simp add: zero_less_divide_iff)
  define k where "k = bitlen p - bitlen q"
  show ?thesis
  proof (cases "pow2 k \<le> a")
    case True
    then show ?thesis by (simp add: ilog2_def pq k_def)
  next
    case False
    have bp: "2 ^ nat (bitlen p - 1) \<le> p" using bitlen_bounds [OF p] by simp
    have bq: "q < 2 ^ nat (bitlen q)" using bitlen_bounds [OF q] by simp
    have p1: "1 \<le> bitlen p" using p by (simp add: bitlen_alt_def)
    have "pow2 (bitlen p - 1) = of_int (2 ^ nat (bitlen p - 1))"
      using p1 by (simp add: pow2_of_nat)
    also have "\<dots> \<le> of_int p" using bp by (simp only: of_int_le_iff)
    finally have 1: "pow2 (bitlen p - 1) \<le> of_int p" .
    have "of_int q < (of_int (2 ^ nat (bitlen q)) :: rat)" using bq by (simp only: of_int_less_iff)
    also have "\<dots> = pow2 (bitlen q)" by (simp add: pow2_of_nat bitlen_nonneg)
    finally have 2: "of_int q < pow2 (bitlen q)" .
    have "pow2 (k - 1) = pow2 (bitlen p - 1) / pow2 (bitlen q)"
      by (simp add: k_def pow2_diff [symmetric] algebra_simps)
    also have "\<dots> \<le> of_int p / of_int q"
      using 1 2 q pow2_pos [of "bitlen p - 1"] by (intro frac_le) auto
    finally have "pow2 (k - 1) \<le> a" using a by simp
    with False show ?thesis by (simp add: ilog2_def pq k_def)
  qed
qed

lemma ilog2_upper:
  assumes "0 < a"
  shows "a < pow2 (ilog2 a + 1)"
proof -
  obtain p q where pq: "quotient_of a = (p, q)" by (cases "quotient_of a")
  have q: "0 < q" using pq by (rule quotient_of_denom_pos)
  have a: "a = of_int p / of_int q" using pq by (rule quotient_of_div)
  have p: "0 < p" using assms q a by (simp add: zero_less_divide_iff)
  define k where "k = bitlen p - bitlen q"
  show ?thesis
  proof (cases "pow2 k \<le> a")
    case False
    then show ?thesis by (simp add: ilog2_def pq k_def)
  next
    case True
    have bp: "p < 2 ^ nat (bitlen p)" using bitlen_bounds [OF p] by simp
    have bq: "2 ^ nat (bitlen q - 1) \<le> q" using bitlen_bounds [OF q] by simp
    have q1: "1 \<le> bitlen q" using q by (simp add: bitlen_alt_def)
    have "of_int p < (of_int (2 ^ nat (bitlen p)) :: rat)" using bp by (simp only: of_int_less_iff)
    also have "\<dots> = pow2 (bitlen p)" by (simp add: pow2_of_nat bitlen_nonneg)
    finally have 1: "of_int p < pow2 (bitlen p)" .
    have "pow2 (bitlen q - 1) = of_int (2 ^ nat (bitlen q - 1))"
      using q1 by (simp add: pow2_of_nat)
    also have "\<dots> \<le> of_int q" using bq by (simp only: of_int_le_iff)
    finally have 2: "pow2 (bitlen q - 1) \<le> of_int q" .
    have "of_int p / of_int q < pow2 (bitlen p) / pow2 (bitlen q - 1)"
      using 1 2 p pow2_pos [of "bitlen q - 1"] by (intro frac_less) auto
    also have "\<dots> = pow2 (k + 1)"
      by (simp add: k_def pow2_diff [symmetric] algebra_simps)
    finally have "a < pow2 (k + 1)" using a by simp
    with True show ?thesis by (simp add: ilog2_def pq k_def)
  qed
qed

lemma is_doubleI: "a = of_int m * pow2 e \<Longrightarrow> 0 \<le> m \<Longrightarrow> m < 2 ^ 53 \<Longrightarrow> - 1074 \<le> e \<Longrightarrow> is_double a"
  unfolding is_double_def by blast

lemma pow2_53: "pow2 53 = of_int (2 ^ 53)"
  by (simp add: pow2_def)

lemma pow2_1: "pow2 1 = 2"
  by (simp add: pow2_def)

lemma rnd_mag_nonneg: "0 \<le> a \<Longrightarrow> 0 \<le> rnd_mag a"
proof -
  assume a: "0 \<le> a"
  have "0 \<le> round_half_even (a / pow2 e)" for e
    using a pow2_pos [of e] by (intro round_half_even_ge) simp
  then show ?thesis
    using pow2_pos by (simp add: rnd_mag_def Let_def less_imp_le)
qed

lemma rnd_nonpos: "x \<le> 0 \<Longrightarrow> rnd x \<le> 0"
  using rnd_mag_nonneg [of "- x"] by (auto simp: rnd_def rnd_mag_def)

lemma rnd_mag_double:
  assumes "0 \<le> q"
  shows "is_double (rnd_mag q)"
proof (cases "q = 0")
  case True
  have "(0::rat) = of_int 0 * pow2 0" by simp
  then have "is_double 0" by (rule is_doubleI) simp_all
  with True show ?thesis by (simp add: rnd_mag_def)
next
  case False
  with assms have q: "0 < q" by simp
  define e where "e = max (ilog2 q - 52) (- 1074)"
  define M where "M = round_half_even (q / pow2 e)"
  have r: "rnd_mag q = of_int M * pow2 e"
    using False by (simp add: rnd_mag_def Let_def e_def M_def)
  have e: "- 1074 \<le> e" by (simp add: e_def)
  have "q / pow2 e < pow2 (ilog2 q + 1) / pow2 e"
    using ilog2_upper [OF q] pow2_pos [of e] by (simp add: divide_strict_right_mono)
  also have "\<dots> = pow2 (ilog2 q + 1 - e)" by (simp add: pow2_diff)
  also have "\<dots> \<le> pow2 53" by (rule pow2_mono) (simp add: e_def)
  also have "\<dots> = of_int (2 ^ 53)" by (rule pow2_53)
  finally have "q / pow2 e \<le> of_int (2 ^ 53)" by simp
  then have M1: "M \<le> 2 ^ 53" unfolding M_def by (rule round_half_even_le)
  have "of_int 0 \<le> q / pow2 e" using q pow2_pos [of e] by simp
  then have M0: "0 \<le> M" unfolding M_def by (rule round_half_even_ge)
  show ?thesis
  proof (cases "M = 2 ^ 53")
    case True
    have "rnd_mag q = of_int (2 ^ 52) * pow2 (e + 1)"
      by (simp add: r True pow2_add pow2_1)
    then show ?thesis by (rule is_doubleI) (use e in simp_all)
  next
    case False
    with M1 have "M < 2 ^ 53" by simp
    with r M0 e show ?thesis by (intro is_doubleI)
  qed
qed

lemma rnd_mag_id:
  assumes "is_double a"
  shows "rnd_mag a = a"
proof -
  obtain m e where a: "a = of_int m * pow2 e" and m0: "0 \<le> m" and m1: "m < 2 ^ 53"
    and e: "- 1074 \<le> e"
    using assms unfolding is_double_def by blast
  show ?thesis
  proof (cases "m = 0")
    case True
    then show ?thesis by (simp add: a rnd_mag_def)
  next
    case False
    with m0 have mpos: "0 < m" by simp
    then have apos: "0 < a" using pow2_pos [of e] by (simp add: a)
    define e' where "e' = max (ilog2 a - 52) (- 1074)"
    have "of_int m < (of_int (2 ^ 53) :: rat)" using m1 by (simp only: of_int_less_iff)
    then have "a < of_int (2 ^ 53) * pow2 e"
      using pow2_pos [of e] by (simp add: a)
    also have "\<dots> = pow2 (53 + e)" by (simp only: pow2_add pow2_53)
    finally have "pow2 (ilog2 a) < pow2 (53 + e)" using ilog2_lower [OF apos] by simp
    then have "ilog2 a < 53 + e" by (rule pow2_less_cancel)
    with e have le: "e' \<le> e" by (simp add: e'_def)
    have "a / pow2 e' = of_int m * pow2 (e - e')" by (simp add: a pow2_diff)
    also have "\<dots> = of_int (m * 2 ^ nat (e - e'))" using le by (simp add: pow2_of_nat)
    finally have "round_half_even (a / pow2 e') = m * 2 ^ nat (e - e')"
      by (simp only: round_half_even_of_int)
    then have "rnd_mag a = of_int (m * 2 ^ nat (e - e')) * pow2 e'"
      using apos by (simp add: rnd_mag_def Let_def e'_def)
    also have "\<dots> = of_int m * (pow2 (e - e') * pow2 e')" using le by (simp add: pow2_of_nat)
    also have "\<dots> = a" by (simp add: a pow2_add [symmetric])
    finally show ?thesis .
  qed
qed

lemma is_double_floor:
  assumes "is_double a"
  shows "is_double (of_int \<lfloor>a\<rfloor>)"
proof -
  obtain m e where a: "a = of_int m * pow2 e" and m0: "0 \<le> m" and m1: "m < 2 ^ 53"
    and e: "- 1074 \<le> e"
    using assms unfolding is_double_def by blast
  show ?thesis
  proof (cases "0 \<le> e")
    case True
    then have "a = of_int (m * 2 ^ nat e)" by (simp add: a pow2_of_nat)
    then have "\<lfloor>a\<rfloor> = m * 2 ^ nat e" by (simp only: floor_of_int)
    then have eq: "of_int \<lfloor>a\<rfloor> = a" using \<open>a = of_int (m * 2 ^ nat e)\<close> by simp
    show ?thesis unfolding eq by (rule assms)
  next
    case False
    then have "pow2 e \<le> pow2 0" by (intro pow2_mono) simp
    then have "pow2 e \<le> 1" by (simp add: pow2_def)
    then have "a \<le> of_int m" using m0 by (simp add: a mult_left_le)
    also have "\<dots> < of_int (2 ^ 53)" using m1 by (simp only: of_int_less_iff)
    finally have "\<lfloor>a\<rfloor> < 2 ^ 53" by (simp add: floor_less_iff)
    moreover have "0 \<le> a" using m0 pow2_pos [of e] by (simp add: a)
    then have "0 \<le> \<lfloor>a\<rfloor>" by simp
    moreover have "(of_int \<lfloor>a\<rfloor> :: rat) = of_int \<lfloor>a\<rfloor> * pow2 0" by (simp add: pow2_def)
    ultimately show ?thesis by (intro is_doubleI [of _ "\<lfloor>a\<rfloor>" 0]) simp_all
  qed
qed

section \<open>Parsed amounts\<close>

lemma digit_val_nonneg: "is_digit c \<Longrightarrow> 0 \<le> digit_val c"
  by (auto simp: is_digit_def digit_val_def)

lemma foldl_digits_nonneg:
  "list_all is_digit ds \<Longrightarrow> 0 \<le> acc \<Longrightarrow> 0 \<le> foldl (\<lambda>acc c. 10 * acc + digit_val c) acc ds"
proof (induction ds arbitrary: acc)
  case Nil
  then show ?case by simp
next
  case (Cons c ds)
  then have "0 \<le> 10 * acc + digit_val c" using digit_val_nonneg [of c] by simp
  with Cons show ?case by simp
qed

lemma digits_val_nonneg: "list_all is_digit ds \<Longrightarrow> 0 \<le> digits_val ds"
  by (simp add: digits_val_def foldl_digits_nonneg)

lemma list_all_takeWhile: "list_all P (takeWhile P xs)"
  by (induction xs) auto

lemma digits_val_takeWhile:
  "0 \<le> digits_val (takeWhile is_digit s)"
  "0 \<le> digits_val (takeWhile is_digit s @ takeWhile is_digit r)"
  by (simp_all add: digits_val_nonneg list_all_takeWhile)

lemma parse_number_nonneg:
  assumes "parse_number s = Some (m, e)"
  shows "0 \<le> m"
  using assms
  by (auto simp: parse_number_def Let_def digits_val_takeWhile
      split: list.splits if_splits option.splits)

lemma pow10_pos: "0 < pow10 k"
  by (simp add: pow10_def)

lemma mk_float_Finite:
  assumes "mk_float neg' q = Finite neg a" and "0 \<le> q"
  shows "is_double a \<and> 0 \<le> a"
proof -
  from assms(1) have "a = rnd_mag q"
    by (simp add: mk_float_def Let_def split: if_splits)
  with assms(2) show ?thesis by (simp add: rnd_mag_double rnd_mag_nonneg)
qed

lemma py_float_Finite:
  assumes "py_float value = Inr (Finite neg a)"
  shows "is_double a \<and> 0 \<le> a"
proof -
  from assms obtain neg' s m e where p: "parse_number s = Some (m, e)"
    and mk: "mk_float neg' (of_int m * pow10 e) = Finite neg a"
    by (auto simp: py_float_def Let_def split: option.splits prod.splits if_splits)
  have "0 \<le> of_int m * pow10 e"
    using parse_number_nonneg [OF p] pow10_pos [of e] by simp
  with mk show ?thesis by (rule mk_float_Finite)
qed

lemma py_float_error: "py_float value = Inl e \<Longrightarrow> e = ValueError"
  by (auto simp: py_float_def Let_def split: option.splits prod.splits if_splits)

lemma rnd_of_nonneg_int: "0 \<le> n \<Longrightarrow> n < 2 ^ 53 \<Longrightarrow> rnd (of_int n) = of_int n"
proof -
  assume n: "0 \<le> n" "n < 2 ^ 53"
  have "(of_int n :: rat) = of_int n * pow2 0" by (simp add: pow2_def)
  then have "is_double (of_int n)" using n by (rule is_doubleI) simp
  then show ?thesis using n by (simp add: rnd_def rnd_mag_id)
qed

lemma float_of_int_100: "float_of_int 100 = 100"
  using rnd_of_nonneg_int [of 100] by (simp add: float_of_int_def)

lemma float_of_int_trunc:
  assumes "is_double a" and "0 \<le> a"
  shows "float_of_int \<lfloor>a\<rfloor> = of_int \<lfloor>a\<rfloor>" and "float_of_int (- \<lfloor>a\<rfloor>) = - of_int \<lfloor>a\<rfloor>"
proof -
  have d: "is_double (of_int \<lfloor>a\<rfloor>)" using assms(1) by (rule is_double_floor)
  have f: "0 \<le> \<lfloor>a\<rfloor>" using assms(2) by simp
  show "float_of_int \<lfloor>a\<rfloor> = of_int \<lfloor>a\<rfloor>"
    using d f by (simp add: float_of_int_def rnd_def rnd_mag_id)
  show "float_of_int (- \<lfloor>a\<rfloor>) = - of_int \<lfloor>a\<rfloor>"
  proof (cases "\<lfloor>a\<rfloor> = 0")
    case True
    then show ?thesis by (simp add: float_of_int_def rnd_def rnd_mag_def)
  next
    case False
    with f have "0 < \<lfloor>a\<rfloor>" by linarith
    then show ?thesis using d by (simp add: float_of_int_def rnd_def rnd_mag_id)
  qed
qed

text \<open>The conversion of \<open>inteiro\<close> in \<^verbatim>\<open>v - inteiro\<close> is exact.\<close>

lemma float_of_int_inteiro:
  assumes "py_float value = Inr v" and "py_int v = Inr inteiro"
  shows "float_of_int inteiro = of_int inteiro"
proof (cases v)
  case (Finite neg a)
  with assms(1) have "is_double a \<and> 0 \<le> a" by (simp add: py_float_Finite)
  with assms(2) Finite show ?thesis by (auto simp: float_of_int_trunc)
qed (use assms in simp_all)

lemma partes_of_nonpos:
  "inteiro \<le> 0 \<Longrightarrow> centavos \<le> 0 \<Longrightarrow> partes_of num2words inteiro centavos = []"
  by (simp add: partes_of_def)

lemma partes_of_both:
  "0 < inteiro \<Longrightarrow> 0 < centavos \<Longrightarrow>
   partes_of num2words inteiro centavos =
     [num2words inteiro @ '' '' @ (if inteiro = 1 then ''real'' else ''reais''),
      num2words centavos @ '' '' @ (if centavos = 1 then ''centavo'' else ''centavos'')]"
  by (simp add: partes_of_def)

lemma valor_por_extenso_Inr:
  "py_float value = Inr v \<Longrightarrow> py_int v = Inr inteiro \<Longrightarrow>
   valor_por_extenso num2words value =
     (let partes = partes_of num2words inteiro (centavos_of v inteiro)
      in if partes = [] then Inr ''zero reais'' else Inr (join '' e '' partes))"
  by (simp add: valor_por_extenso_def Let_def)

lemma centavos_of_nonpos:
  assumes "py_float value = Inr (Finite True a)"
  shows "centavos_of (Finite True a) (- \<lfloor>a\<rfloor>) \<le> 0"
proof -
  have a: "is_double a \<and> 0 \<le> a" using assms by (rule py_float_Finite)
  have "of_int \<lfloor>a\<rfloor> - a \<le> 0" by simp
  then have "rnd (of_int \<lfloor>a\<rfloor> - a) \<le> 0" by (rule rnd_nonpos)
  then have "rnd (of_int \<lfloor>a\<rfloor> - a) * 100 \<le> 0" by simp
  then have "rnd (rnd (of_int \<lfloor>a\<rfloor> - a) * 100) \<le> of_int 0" using rnd_nonpos by simp
  then have "round_half_even (rnd (rnd (of_int \<lfloor>a\<rfloor> - a) * 100)) \<le> 0"
    by (rule round_half_even_le)
  then show ?thesis
    using a by (simp add: centavos_of_def py_round_def float_mul_def float_sub_def
        float_of_int_100 float_of_int_trunc)
qed


section \<open>The page: reading the drawing calls\<close>

lemma is_DrawString_draw_lines: "list_all is_DrawString (draw_lines y ls)"
  by (induction ls arbitrary: y) auto

lemma text_of_draw_lines: "map text_of (draw_lines y ls) = ls"
  by (induction ls arbitrary: y) auto

lemma takeWhile_draw_lines:
  "\<not> is_DrawString x \<Longrightarrow> takeWhile is_DrawString (draw_lines y ls @ x # rest) = draw_lines y ls"
  by (induction ls arbitrary: y) auto

lemma row_value_skip: "\<not> is_DrawString x \<Longrightarrow> row_value l (x # xs) = row_value l xs"
  by (cases xs; cases x) simp_all

lemma row_value_draw_lines:
  "row_value l (draw_lines y ls @ SetFont f n # rest) = row_value l (SetFont f n # rest)"
proof (induction ls arbitrary: y)
  case Nil
  then show ?case by simp
next
  case (Cons a ls)
  show ?case
  proof (cases ls)
    case Nil
    then show ?thesis by simp
  next
    case (Cons b ls')
    with Cons.IH [of "float_sub y 12"] show ?thesis by simp
  qed
qed

lemma gerar_Inr_D:
  assumes "gerar_recibo_pdf_memoria d = Inr ops"
  shows "\<exists>valor v nome. d ''valor'' = Some valor \<and> py_float valor = Inr v \<and> d ''nome'' = Some nome"
  using assms
  by (auto simp: gerar_recibo_pdf_memoria_def getitem_def Let_def split: option.splits sum.splits)

lemma extenso_drawn_gerar:
  assumes "gerar_recibo_pdf_memoria d = Inr ops"
  shows "extenso_drawn ops = take 2 (extenso_lines d)"
  using assms
  by (auto simp: gerar_recibo_pdf_memoria_def getitem_def Let_def extenso_drawn_def
      takeWhile_draw_lines text_of_draw_lines split: option.splits sum.splits)

lemma amount_box_gerar:
  assumes "gerar_recibo_pdf_memoria d = Inr ops" and "d ''valor'' = Some valor"
    and "py_float valor = Inr v"
  shows "ops ! 12 =
           DrawRightString (float_sub (float_add box_x box_w) 8)
             (float_sub (float_add box_y (float_div box_h 2)) 4) (valor_formatado v)"
  using assms
  by (auto simp: gerar_recibo_pdf_memoria_def getitem_def Let_def split: option.splits sum.splits)

lemma row_values_gerar:
  assumes "gerar_recibo_pdf_memoria d = Inr ops" and "d ''valor'' = Some valor"
    and "py_float valor = Inr v"
  shows "row_value ''MENSALIDADE'' ops = Some (valor_formatado v)"
    and "row_value ''VALOR TOTAL'' ops = Some (valor_formatado v)"
    and "row_value ''ALT. CONTRATO'' ops = Some ''R$ -''"
    and "row_value (''REGULARIZA'' @ [CHR 0xC7, CHR 0xC3] @ ''O'') ops = Some ''R$ -''"
  using assms
  by (auto simp: gerar_recibo_pdf_memoria_def getitem_def Let_def
      row_value_skip row_value_draw_lines split: option.splits sum.splits)

section \<open>The lines of the amount in words: lemmas\<close>

lemma rfind_ge: "- 1 \<le> rfind s c"
  by (induction s) (auto simp: Let_def)

lemma rfind_none: "rfind s c = - 1 \<longleftrightarrow> c \<notin> set s"
proof (induction s)
  case Nil
  show ?case by simp
next
  case (Cons x xs)
  have "- 1 \<le> rfind xs c" by (rule rfind_ge)
  with Cons show ?case by (auto simp: Let_def)
qed

lemma rfind_found:
  assumes "c \<in> set s"
  shows "0 \<le> rfind s c \<and> nat (rfind s c) < length s \<and> s ! nat (rfind s c) = c \<and>
         (\<forall>j. nat (rfind s c) < j \<and> j < length s \<longrightarrow> s ! j \<noteq> c)"
  using assms
proof (induction s)
  case Nil
  then show ?case by simp
next
  case (Cons x xs)
  show ?case
  proof (cases "c \<in> set xs")
    case True
    then have r: "rfind xs c \<noteq> - 1" by (simp add: rfind_none)
    from Cons.IH [OF True] have ih: "0 \<le> rfind xs c" "nat (rfind xs c) < length xs"
      "xs ! nat (rfind xs c) = c" "\<forall>j. nat (rfind xs c) < j \<and> j < length xs \<longrightarrow> xs ! j \<noteq> c"
      by simp_all
    have e: "rfind (x # xs) c = rfind xs c + 1" using r by (simp add: Let_def)
    have n: "nat (rfind xs c + 1) = Suc (nat (rfind xs c))" using ih(1) by simp
    have "\<forall>j. Suc (nat (rfind xs c)) < j \<and> j < length (x # xs) \<longrightarrow> (x # xs) ! j \<noteq> c"
    proof (intro allI impI)
      fix j assume j: "Suc (nat (rfind xs c)) < j \<and> j < length (x # xs)"
      then obtain j' where j': "j = Suc j'" by (cases j) simp_all
      with j ih(4) show "(x # xs) ! j \<noteq> c" by simp
    qed
    with ih show ?thesis unfolding e n by simp
  next
    case False
    then have r: "rfind xs c = - 1" by (simp add: rfind_none)
    from False Cons.prems have x: "x = c" by simp
    have e: "rfind (x # xs) c = 0" using r x by (simp add: Let_def)
    have "\<forall>j. 0 < j \<and> j < length (x # xs) \<longrightarrow> (x # xs) ! j \<noteq> c"
    proof (intro allI impI)
      fix j assume j: "0 < j \<and> j < length (x # xs)"
      then obtain j' where j': "j = Suc j'" by (cases j) simp_all
      with j have "xs ! j' \<in> set xs" by simp
      with False j' show "(x # xs) ! j \<noteq> c" by auto
    qed
    then show ?thesis unfolding e by (simp add: x)
  qed
qed

lemma rfind_last:
  assumes "k < length s" and "s ! k = c" and "\<forall>j. k < j \<and> j < length s \<longrightarrow> s ! j \<noteq> c"
  shows "rfind s c = int k"
proof -
  have "c \<in> set s" using assms(1,2) by auto
  from rfind_found [OF this] have f: "0 \<le> rfind s c" "nat (rfind s c) < length s"
    "s ! nat (rfind s c) = c" "\<forall>j. nat (rfind s c) < j \<and> j < length s \<longrightarrow> s ! j \<noteq> c"
    by simp_all
  have "\<not> k < nat (rfind s c)" using assms(3) f(2,3) by blast
  moreover have "\<not> nat (rfind s c) < k" using f(4) assms(1,2) by blast
  ultimately have "nat (rfind s c) = k" by simp
  with f(1) show ?thesis by simp
qed

lemma lines_loop_short:
  "extenso \<noteq> [] \<Longrightarrow> length extenso \<le> 90 \<Longrightarrow> lines_loop extenso lines = lines @ [extenso]"
  by (subst lines_loop.simps) (simp add: max_chars_line_def)

lemma lines_loop_empty: "lines_loop [] lines = lines"
  by (subst lines_loop.simps) simp

lemma lines_loop_hard:
  assumes "90 < length extenso" and "CHR '' '' \<notin> set (take 90 extenso)"
  shows "lines_loop extenso lines = lines_loop (drop 90 extenso) (lines @ [take 90 extenso])"
proof -
  have "rfind (take 90 extenso) (CHR '' '') = - 1" using assms(2) by (simp add: rfind_none)
  moreover have "extenso \<noteq> []" using assms(1) by auto
  ultimately show ?thesis
    using assms(1) by (subst lines_loop.simps) (simp add: max_chars_line_def Let_def)
qed

lemma lines_loop_space:
  assumes "90 < length extenso" and "k < 90" and "extenso ! k = CHR '' ''"
    and "\<forall>j. k < j \<and> j < 90 \<longrightarrow> extenso ! j \<noteq> CHR '' ''"
  shows "lines_loop extenso lines =
           lines_loop (drop (Suc k) extenso) (lines @ [take k extenso])"
proof -
  have "rfind (take 90 extenso) (CHR '' '') = int k"
    using assms by (intro rfind_last) simp_all
  moreover have "extenso \<noteq> []" using assms(1) by auto
  ultimately show ?thesis
    using assms(1) by (subst lines_loop.simps) (simp add: max_chars_line_def Let_def nat_add_distrib)
qed

text \<open>The last line ends where the text ends.\<close>

lemma lines_loop_last:
  "extenso \<noteq> [] \<Longrightarrow>
   lines_loop extenso lines \<noteq> [] \<and> last (lines_loop extenso lines) \<noteq> [] \<and>
   last (last (lines_loop extenso lines)) = last extenso"
proof (induction extenso lines rule: lines_loop.induct)
  case (1 extenso lines)
  show ?case
  proof (cases "length extenso \<le> 90")
    case True
    with "1.prems" show ?thesis by (simp add: lines_loop_short)
  next
    case False
    then have len: "90 < length extenso" by simp
    define part where "part = take max_chars_line extenso"
    define last_space where "last_space = rfind part (CHR '' '')"
    have ne: "extenso \<noteq> []" "\<not> length extenso \<le> max_chars_line"
      using len by (auto simp: max_chars_line_def)
    show ?thesis
    proof (cases "last_space = - 1")
      case True
      have d: "drop max_chars_line extenso \<noteq> []" using len by (simp add: max_chars_line_def)
      have e: "lines_loop extenso lines =
                 lines_loop (drop max_chars_line extenso) (lines @ [part])"
        using ne True
        by (subst lines_loop.simps) (simp add: Let_def part_def last_space_def)
      from "1.IH"(1) [OF ne part_def last_space_def True d] d
      show ?thesis by (simp add: e)
    next
      case False
      have "- 1 \<le> last_space" unfolding last_space_def by (rule rfind_ge)
      with False have ge: "0 \<le> last_space" by simp
      have "CHR '' '' \<in> set part" using False by (simp add: last_space_def rfind_none)
      from rfind_found [OF this] have "nat last_space < length part"
        by (simp add: last_space_def)
      then have lt: "nat last_space < 90" by (simp add: part_def max_chars_line_def)
      have d: "drop (nat (last_space + 1)) extenso \<noteq> []"
        using len lt ge by (simp add: nat_add_distrib)
      have e: "lines_loop extenso lines =
                 lines_loop (drop (nat (last_space + 1)) extenso)
                   (lines @ [take (nat last_space) extenso])"
        using ne False
        by (subst lines_loop.simps) (simp add: Let_def part_def last_space_def)
      from "1.IH"(2) [OF ne part_def last_space_def False d] d
      show ?thesis by (simp add: e)
    qed
  qed
qed

lemma endswith_period: "endswith s ''.'' \<longleftrightarrow> s \<noteq> [] \<and> last s = CHR ''.''"
proof (cases s rule: rev_cases)
  case Nil
  then show ?thesis by (simp add: endswith_def)
next
  case (snoc ys y)
  then show ?thesis by (auto simp: endswith_def)
qed

lemma with_period_last: "s \<noteq> [] \<Longrightarrow> last (with_period s) = CHR ''.''"
  by (simp add: with_period_def endswith_period)

lemma lines_loop_two:
  assumes "90 < length t" and "i < 90" and "t ! i = CHR '' ''" and "length t \<le> i + 91"
  shows "\<exists>k. i \<le> k \<and> k < 90 \<and> t ! k = CHR '' '' \<and> (\<forall>j. k < j \<and> j < 90 \<longrightarrow> t ! j \<noteq> CHR '' '') \<and>
             drop (Suc k) t \<noteq> [] \<and> length (drop (Suc k) t) \<le> 90 \<and>
             lines_loop t ls = ls @ [take k t, drop (Suc k) t]"
proof -
  define k where "k = nat (rfind (take 90 t) (CHR '' ''))"
  have "take 90 t ! i = CHR '' ''" using assms(2,3) by simp
  moreover have "i < length (take 90 t)" using assms(1,2) by simp
  ultimately have "CHR '' '' \<in> set (take 90 t)" by (metis nth_mem)
  from rfind_found [OF this] have k90: "k < 90" and tk: "take 90 t ! k = CHR '' ''"
    and lastk: "\<forall>j. k < j \<and> j < length (take 90 t) \<longrightarrow> take 90 t ! j \<noteq> CHR '' ''"
    using assms(1) by (simp_all add: k_def)
  have tk': "t ! k = CHR '' ''" using tk k90 by simp
  have last': "\<forall>j. k < j \<and> j < 90 \<longrightarrow> t ! j \<noteq> CHR '' ''"
    using lastk assms(1) by simp
  have ik: "i \<le> k"
  proof (rule ccontr)
    assume "\<not> i \<le> k"
    then have "k < i \<and> i < 90" using assms(2) by simp
    with last' assms(3) show False by blast
  qed
  have rest: "drop (Suc k) t \<noteq> []" "length (drop (Suc k) t) \<le> 90"
    using assms(1,4) k90 ik by simp_all
  have "lines_loop t ls = lines_loop (drop (Suc k) t) (ls @ [take k t])"
    using assms(1) k90 tk' last' by (rule lines_loop_space)
  also have "\<dots> = ls @ [take k t, drop (Suc k) t]"
    using rest by (simp add: lines_loop_short)
  finally show ?thesis using ik k90 tk' last' rest by blast
qed


section \<open>The formatted amount: lemmas\<close>

lemma digit_char_table: "map digit_char [0, 1, 2, 3, 4, 5, 6, 7, 8, 9] = ''0123456789''"
  by code_simp

lemma digit_val_table: "map digit_val ''0123456789'' = [0, 1, 2, 3, 4, 5, 6, 7, 8, 9]"
  by code_simp

lemma digit_char_cases:
  assumes "0 \<le> k" and "k < 10"
  shows "is_digit (digit_char k) \<and> digit_val (digit_char k) = k"
proof -
  from assms have "k = 0 \<or> k = 1 \<or> k = 2 \<or> k = 3 \<or> k = 4 \<or> k = 5 \<or> k = 6 \<or> k = 7 \<or> k = 8 \<or> k = 9"
    by presburger
  then show ?thesis
    using digit_char_table digit_val_table by (elim disjE) (simp_all add: is_digit_def)
qed

lemma is_digit_not_sep: "is_digit c \<Longrightarrow> c \<noteq> CHR '','' \<and> c \<noteq> CHR ''.'' \<and> c \<noteq> CHR ''X''"
  by (auto simp: is_digit_def)

lemma digits_val_snoc: "digits_val (ds @ [c]) = 10 * digits_val ds + digit_val c"
  by (simp add: digits_val_def)

lemma dec_digits_props:
  "0 \<le> n \<Longrightarrow> dec_digits n \<noteq> [] \<and> list_all is_digit (dec_digits n) \<and> digits_val (dec_digits n) = n"
proof (induction n rule: dec_digits.induct)
  case (1 n)
  show ?case
  proof (cases "n < 10")
    case True
    with "1.prems" digit_char_cases [of n] show ?thesis
      by (subst (1 2 3) dec_digits.simps) (simp add: digits_val_def)
  next
    case False
    then have "0 \<le> n div 10" by simp
    from "1.IH" [OF False this] have ih: "list_all is_digit (dec_digits (n div 10))"
      "digits_val (dec_digits (n div 10)) = n div 10" by simp_all
    have m: "0 \<le> n mod 10" "n mod 10 < 10" by simp_all
    from digit_char_cases [OF m] ih False show ?thesis
      by (subst (1 2 3) dec_digits.simps) (simp add: digits_val_snoc)
  qed
qed


lemma replace_chain:
  "replace (CHR ''X'') (CHR ''.'') (replace (CHR ''.'') (CHR '','') (replace (CHR '','') (CHR ''X'') s)) =
     map swap_sep s"
  by (induction s) (auto simp: replace_def swap_sep_def)

lemma swap_sep_digit: "is_digit c \<Longrightarrow> swap_sep c = c"
  using is_digit_not_sep [of c] by (simp add: swap_sep_def)

lemma map_swap_sep_digits: "list_all is_digit ds \<Longrightarrow> map swap_sep ds = ds"
  by (induction ds) (simp_all add: swap_sep_digit)

lemma filter_digits: "list_all is_digit ds \<Longrightarrow> filter is_digit ds = ds"
  by (induction ds) simp_all

lemma grouped_rev_short:
  "length xs \<le> 3 \<Longrightarrow> grouped_rev xs = (xs \<noteq> [] \<and> list_all is_digit xs)"
  by (cases xs rule: grouped_rev.cases) simp_all

lemma length_3_D: "length xs = 3 \<Longrightarrow> \<exists>x y z. xs = [x, y, z]"
  by (auto simp: length_Suc_conv numeral_3_eq_3)

lemma group3_props:
  "list_all is_digit ds \<Longrightarrow> ds \<noteq> [] \<Longrightarrow>
   map swap_sep (group3 ds) \<noteq> [] \<and> grouped_rev (rev (map swap_sep (group3 ds))) \<and>
   filter is_digit (map swap_sep (group3 ds)) = ds"
proof (induction ds rule: group3.induct)
  case (1 ds)
  show ?case
  proof (cases "length ds \<le> 3")
    case True
    then have g: "group3 ds = ds" by (subst group3.simps) simp
    have "grouped_rev (rev ds)"
      using True "1.prems" by (simp add: grouped_rev_short)
    with "1.prems" show ?thesis
      by (simp add: g map_swap_sep_digits filter_digits)
  next
    case False
    define h where "h = take (length ds - 3) ds"
    define t where "t = drop (length ds - 3) ds"
    have ds: "ds = h @ t" by (simp add: h_def t_def)
    have g: "group3 ds = group3 h @ '','' @ t"
      using False by (subst group3.simps) (simp add: h_def t_def)
    have hd: "list_all is_digit h" "h \<noteq> []"
      using "1.prems"(1) False by (auto simp: h_def list_all_iff dest: in_set_takeD)
    have td: "list_all is_digit t"
      using "1.prems"(1) by (auto simp: t_def list_all_iff dest: in_set_dropD)
    have "length t = 3" using False by (simp add: t_def)
    then obtain x y z where t: "t = [x, y, z]" using length_3_D by blast
    from "1.IH" [OF False] hd have ih: "map swap_sep (group3 h) \<noteq> []"
      "grouped_rev (rev (map swap_sep (group3 h)))"
      "filter is_digit (map swap_sep (group3 h)) = h"
      by (simp_all add: h_def)
    have xyz: "is_digit x" "is_digit y" "is_digit z" using td t by simp_all
    have m: "map swap_sep (group3 ds) = map swap_sep (group3 h) @ ''.'' @ [x, y, z]"
      using xyz by (simp add: g t swap_sep_digit) (simp add: swap_sep_def)
    have nd: "\<not> is_digit (CHR ''.'')" by (simp add: is_digit_def)
    have 1: "map swap_sep (group3 ds) \<noteq> []" by (simp add: m)
    have 2: "grouped_rev (rev (map swap_sep (group3 ds)))"
      unfolding m using ih(1,2) xyz by simp
    have "filter is_digit (map swap_sep (group3 ds)) = h @ t"
      unfolding m using ih(3) xyz nd by (simp add: t)
    with 1 2 show ?thesis using ds by simp
  qed
qed


lemma digits_aux: "r * 10 + u = m \<Longrightarrow> q * 100 + m = n \<Longrightarrow> 10 * (10 * q + r) + u = (n::int)"
  by simp

lemma two_decimals: "10 * (10 * (n div 100) + n mod 100 div 10) + n mod 10 = (n::int)"
proof -
  have 1: "n mod 100 div 10 * 10 + n mod 10 = n mod 100"
    using div_mult_mod_eq [of "n mod 100" 10] by (simp add: mod_mod_cancel)
  have 3: "n div 100 * 100 + n mod 100 = n" by (rule div_mult_mod_eq)
  from 1 3 show ?thesis by (rule digits_aux)
qed

lemma valor_formatado_Finite:
  assumes "0 \<le> a"
  shows "\<exists>ip d1 d2.
           valor_formatado (Finite neg a) =
             ''R$ '' @ (if neg then ''-'' else []) @ ip @ '','' @ [d1, d2] \<and>
           brl_grouped ip \<and> is_digit d1 \<and> is_digit d2 \<and>
           digits_val (filter is_digit ip @ [d1, d2]) = round_half_even (a * 100)"
proof -
  define n where "n = round_half_even (a * 100)"
  have "of_int 0 \<le> a * 100" using assms by simp
  then have n0: "0 \<le> n" unfolding n_def by (rule round_half_even_ge)
  define ds where "ds = dec_digits (n div 100)"
  define ip where "ip = map swap_sep (group3 ds)"
  define d1 where "d1 = digit_char (n mod 100 div 10)"
  define d2 where "d2 = digit_char (n mod 10)"
  have "0 \<le> n div 100" using n0 by simp
  from dec_digits_props [OF this] have dsp: "ds \<noteq> []" "list_all is_digit ds"
    "digits_val ds = n div 100" by (simp_all add: ds_def)
  from group3_props [OF dsp(2,1)] have ipp: "brl_grouped ip" "filter is_digit ip = ds"
    by (simp_all add: ip_def brl_grouped_def)
  have "0 \<le> n mod 100 div 10" "n mod 100 div 10 < 10" by simp_all
  from digit_char_cases [OF this] have d1p: "is_digit d1" "digit_val d1 = n mod 100 div 10"
    by (simp_all add: d1_def)
  have "0 \<le> n mod 10" "n mod 10 < 10" by simp_all
  from digit_char_cases [OF this] have d2p: "is_digit d2" "digit_val d2 = n mod 10"
    by (simp_all add: d2_def)
  have sw: "swap_sep (CHR ''R'') = CHR ''R''" "swap_sep (CHR ''$'') = CHR ''$''"
    "swap_sep (CHR '' '') = CHR '' ''" "swap_sep (CHR ''-'') = CHR ''-''"
    "swap_sep (CHR ''.'') = CHR '',''"
    by (simp_all add: swap_sep_def)
  have "format_2f (Finite neg a) = (if neg then ''-'' else []) @ group3 ds @ ''.'' @ [d1, d2]"
    by (simp add: Let_def n_def ds_def d1_def d2_def)
  then have "valor_formatado (Finite neg a) =
      map swap_sep (''R$ '' @ (if neg then ''-'' else []) @ group3 ds @ ''.'' @ [d1, d2])"
    by (simp only: valor_formatado_def replace_chain)
  also have "\<dots> = ''R$ '' @ (if neg then ''-'' else []) @ ip @ '','' @ [d1, d2]"
    using d1p(1) d2p(1) by (simp add: ip_def sw swap_sep_digit)
  finally have v: "valor_formatado (Finite neg a) =
             ''R$ '' @ (if neg then ''-'' else []) @ ip @ '','' @ [d1, d2]" .
  have "digits_val (ds @ [d1, d2]) = 10 * (10 * (n div 100) + n mod 100 div 10) + n mod 10"
    using digits_val_snoc [of "ds @ [d1]" d2] digits_val_snoc [of ds d1] dsp(3) d1p(2) d2p(2)
    by simp
  also have "\<dots> = n" by (rule two_decimals)
  finally have "digits_val (filter is_digit ip @ [d1, d2]) = round_half_even (a * 100)"
    by (simp add: ipp(2) n_def)
  with v ipp(1) d1p(1) d2p(1) show ?thesis by blast
qed

section \<open>The example records\<close>

lemma py_float_444444_8:
  "py_float ''444444.8'' = Inr (Finite False (7635503523509043 / 17179869184))"
  by code_simp

lemma py_float_10: "py_float ''10'' = Inr (Finite False 10)"
  by code_simp

lemma gerar_recibo_exemplo:
  "gerar_recibo_pdf_memoria recibo_exemplo = Inr (projr (gerar_recibo_pdf_memoria recibo_exemplo))"
  by (simp add: gerar_recibo_pdf_memoria_def recibo_exemplo_def getitem_def py_float_444444_8
      Let_def)

lemma gerar_recibo_longo:
  "gerar_recibo_pdf_memoria recibo_longo = Inr (projr (gerar_recibo_pdf_memoria recibo_longo))"
  by (simp add: gerar_recibo_pdf_memoria_def recibo_longo_def getitem_def py_float_10 Let_def)

section \<open>The amount in words: properties\<close>

text \<open>
  Claim C1. An amount whose fraction rounds to 100 centavos should carry into the reais.
  The program has no carry: for \<^verbatim>\<open>'2.995'\<close> the integer part is 2 and the rounded
  fraction is 100, so the words are those of two reais and one hundred centavos, while
  the figure drawn on the same receipt, rounded by the formatting, is \<^verbatim>\<open>R$ 3,00\<close>.
\<close>

theorem valor_por_extenso_2_995_no_carry:
  "py_float ''2.995'' = Inr (Finite False (3372070220993659 / 1125899906842624)) \<and>
   py_int (Finite False (3372070220993659 / 1125899906842624)) = Inr 2 \<and>
   centavos_of (Finite False (3372070220993659 / 1125899906842624)) 2 = 100 \<and>
   valor_por_extenso num2words_pt_BR ''2.995'' = Inr ''dois reais e cem centavos'' \<and>
   valor_formatado (Finite False (3372070220993659 / 1125899906842624)) = ''R$ 3,00''"
  by code_simp

text \<open>
  Claim C4. When the integer part \<open>inteiro\<close> and the rounded fraction \<open>centavos\<close> are both
  positive, the words are those of \<open>inteiro\<close>, then \<^verbatim>\<open>real\<close> if \<open>inteiro\<close> is 1 and
  \<^verbatim>\<open>reais\<close> otherwise, then \<^verbatim>\<open>" e "\<close>, then the words of \<open>centavos\<close>, then \<^verbatim>\<open>centavo\<close> if
  \<open>centavos\<close> is 1 and \<^verbatim>\<open>centavos\<close> otherwise. For \<^verbatim>\<open>'1.01'\<close> both nouns are singular.
\<close>

theorem valor_por_extenso_reais_e_centavos:
  "(py_float value = Inr v \<longrightarrow> py_int v = Inr inteiro \<longrightarrow> 0 < inteiro \<longrightarrow>
    centavos_of v inteiro = centavos \<longrightarrow> 0 < centavos \<longrightarrow>
      valor_por_extenso num2words value =
        Inr (num2words inteiro @ '' '' @ (if inteiro = 1 then ''real'' else ''reais'') @
             '' e '' @
             num2words centavos @ '' '' @ (if centavos = 1 then ''centavo'' else ''centavos''))) \<and>
   valor_por_extenso num2words ''1.01'' =
     Inr (num2words 1 @ '' real e '' @ num2words 1 @ '' centavo'')"
proof -
  have g: "valor_por_extenso nw s =
        Inr (nw i @ '' '' @ (if i = 1 then ''real'' else ''reais'') @ '' e '' @
             nw (centavos_of w i) @ '' '' @
             (if centavos_of w i = 1 then ''centavo'' else ''centavos''))"
    if "py_float s = Inr w" and "py_int w = Inr i" and "0 < i" and "0 < centavos_of w i"
    for nw s w i
    using valor_por_extenso_Inr [OF that(1) that(2), of nw] that(3) that(4)
    by (simp add: partes_of_both)
  have p: "py_float ''1.01'' = Inr (Finite False (4548635623644201 / 4503599627370496))"
    by code_simp
  have i: "py_int (Finite False (4548635623644201 / 4503599627370496)) = Inr 1"
    by code_simp
  have c: "centavos_of (Finite False (4548635623644201 / 4503599627370496)) 1 = 1"
    by code_simp
  have "valor_por_extenso num2words ''1.01'' =
     Inr (num2words 1 @ '' real e '' @ num2words 1 @ '' centavo'')"
    using g [OF p i, of num2words] c by simp
  with g show ?thesis by blast
qed

theorem valor_por_extenso_reais_e_centavos_witness:
  "py_float ''2.50'' = Inr (Finite False (5 / 2)) \<and> py_int (Finite False (5 / 2)) = Inr 2 \<and>
   (0::int) < 2 \<and> centavos_of (Finite False (5 / 2)) 2 = 50 \<and> (0::int) < 50 \<and>
   valor_por_extenso num2words_pt_BR ''2.50'' = Inr ''dois reais e cinquenta centavos'' \<and>
   valor_por_extenso num2words_pt_BR ''1.01'' = Inr ''um real e um centavo''"
proof -
  have p: "py_float ''2.50'' = Inr (Finite False (5 / 2))" by code_simp
  have i: "py_int (Finite False (5 / 2)) = Inr 2" by code_simp
  have c: "centavos_of (Finite False (5 / 2)) 2 = 50" by code_simp
  have n: "num2words_pt_BR 2 = ''dois''" "num2words_pt_BR 50 = ''cinquenta''"
    "num2words_pt_BR 1 = ''um''" by code_simp+
  show ?thesis
    using p i c n
      valor_por_extenso_reais_e_centavos
        [of "''2.50''" "Finite False (5 / 2)" 2 50 num2words_pt_BR]
    by simp
qed

text \<open>
  Claim C5. The words of \<^verbatim>\<open>'0'\<close> are exactly \<^verbatim>\<open>zero reais\<close>, and so are the words of
  every amount whose integer part and rounded fraction are both zero.
\<close>

theorem valor_por_extenso_zero:
  "valor_por_extenso num2words ''0'' = Inr ''zero reais'' \<and>
   (py_float value = Inr v \<longrightarrow> py_int v = Inr 0 \<longrightarrow> centavos_of v 0 = 0 \<longrightarrow>
      valor_por_extenso num2words value = Inr ''zero reais'')"
proof -
  have g: "valor_por_extenso nw s = Inr ''zero reais''"
    if "py_float s = Inr w" and "py_int w = Inr 0" and "centavos_of w 0 = 0"
    for nw s w
    using valor_por_extenso_Inr [OF that(1) that(2), of nw] that(3)
    by (simp add: partes_of_nonpos)
  have p: "py_float ''0'' = Inr (Finite False 0)" by code_simp
  have c: "centavos_of (Finite False 0) 0 = 0" by code_simp
  have "valor_por_extenso num2words ''0'' = Inr ''zero reais''"
    using p c by (intro g [of _ "Finite False 0"]) simp_all
  with g show ?thesis by blast
qed

theorem valor_por_extenso_zero_witness:
  "py_float ''-0.00'' = Inr (Finite True 0) \<and> py_int (Finite True 0) = Inr 0 \<and>
   centavos_of (Finite True 0) 0 = 0 \<and>
   valor_por_extenso num2words_pt_BR ''-0.00'' = Inr ''zero reais''"
proof -
  have p: "py_float ''-0.00'' = Inr (Finite True 0)" by code_simp
  have i: "py_int (Finite True 0) = Inr 0" by simp
  have c: "centavos_of (Finite True 0) 0 = 0" by code_simp
  show ?thesis
    using p i c
      valor_por_extenso_zero [of num2words_pt_BR "''-0.00''" "Finite True 0"]
    by simp
qed

text \<open>
  Claim C10, as amended. For every input that \<^verbatim>\<open>float\<close> reads as a finite negative number
  the words are \<^verbatim>\<open>zero reais\<close>: the integer part and the rounded fraction are both at
  most zero, so no part is produced. The negative infinity, which \<^verbatim>\<open>float\<close> also reads,
  is no such input: \<^verbatim>\<open>int(v)\<close> raises \<^verbatim>\<open>OverflowError\<close> for it.
\<close>

theorem valor_por_extenso_negative:
  assumes "py_float value = Inr (Finite neg a)" and "fval (Finite neg a) < 0"
  shows "valor_por_extenso num2words value = Inr ''zero reais''"
proof -
  have a: "is_double a \<and> 0 \<le> a" using assms(1) by (rule py_float_Finite)
  with assms(2) have neg: "neg" and pos: "0 < a" by (auto split: if_splits)
  have i: "py_int (Finite neg a) = Inr (- \<lfloor>a\<rfloor>)" using neg by simp
  have "- \<lfloor>a\<rfloor> \<le> 0" using pos by simp
  moreover have "centavos_of (Finite neg a) (- \<lfloor>a\<rfloor>) \<le> 0"
    using assms(1) neg centavos_of_nonpos by simp
  ultimately have "partes_of num2words (- \<lfloor>a\<rfloor>) (centavos_of (Finite neg a) (- \<lfloor>a\<rfloor>)) = []"
    by (rule partes_of_nonpos)
  then show ?thesis
    using valor_por_extenso_Inr [OF assms(1) i] by simp
qed

theorem valor_por_extenso_negative_witness:
  "py_float ''-5.5'' = Inr (Finite True (11 / 2)) \<and> fval (Finite True (11 / 2)) < 0 \<and>
   valor_por_extenso num2words_pt_BR ''-5.5'' = Inr ''zero reais''"
proof -
  have p: "py_float ''-5.5'' = Inr (Finite True (11 / 2))" by code_simp
  have f: "fval (Finite True (11 / 2)) < 0" by simp
  show ?thesis using p f valor_por_extenso_negative [OF p f] by simp
qed

text \<open>
  The claim as it was stated fails at \<^verbatim>\<open>'-inf'\<close>, which \<^verbatim>\<open>float\<close> reads as the negative
  infinity: \<^verbatim>\<open>int(v)\<close> raises \<^verbatim>\<open>OverflowError\<close>.
\<close>

theorem valor_por_extenso_negative_infinity:
  "py_float ''-inf'' = Inr (Infinite True) \<and>
   valor_por_extenso num2words_pt_BR ''-inf'' = Inl OverflowError"
  by code_simp

section \<open>The page: properties\<close>

text \<open>
  Claim C2, as amended. When \<^verbatim>\<open>float\<close> cannot read the input, \<^verbatim>\<open>valor_por_extenso\<close> does
  not fail: it returns the empty string. \<^verbatim>\<open>gerar_recibo_pdf_memoria\<close> does fail, with
  the \<^verbatim>\<open>ValueError\<close> of \<^verbatim>\<open>float\<close>, and returns no buffer.
\<close>

theorem valor_unparseable:
  assumes "py_float value = Inl e"
  shows "valor_por_extenso num2words value = Inr [] \<and>
         (d ''valor'' = Some value \<longrightarrow> gerar_recibo_pdf_memoria d = Inl ValueError)"
proof -
  have "e = ValueError" using assms by (rule py_float_error)
  with assms show ?thesis
    by (simp add: valor_por_extenso_def gerar_recibo_pdf_memoria_def getitem_def)
qed

theorem valor_unparseable_witness:
  "py_float ''abc'' = Inl ValueError \<and> valor_por_extenso num2words_pt_BR ''abc'' = Inr [] \<and>
   [''nome'' \<mapsto> ''Ana'', ''valor'' \<mapsto> ''abc''] ''valor'' = Some ''abc'' \<and>
   gerar_recibo_pdf_memoria [''nome'' \<mapsto> ''Ana'', ''valor'' \<mapsto> ''abc''] = Inl ValueError"
proof -
  have p: "py_float ''abc'' = Inl ValueError" by code_simp
  show ?thesis
    using p valor_unparseable [OF p, of num2words_pt_BR "[''nome'' \<mapsto> ''Ana'', ''valor'' \<mapsto> ''abc'']"]
    by simp
qed

text \<open>
  The claim as it was stated fails at \<^verbatim>\<open>'12,50'\<close> (a comma for the decimal point):
  \<^verbatim>\<open>float\<close> raises, and \<^verbatim>\<open>valor_por_extenso\<close> returns the empty string instead of failing.
\<close>

theorem valor_por_extenso_unparseable_no_error:
  "py_float ''12,50'' = Inl ValueError \<and>
   valor_por_extenso num2words_pt_BR ''12,50'' = Inr []"
  by code_simp

text \<open>
  Claim C3. For every amount that \<^verbatim>\<open>float\<close> reads as a finite number, the formatted string
  is \<^verbatim>\<open>R$\<close> and a space, a minus sign when the sign bit is set, the integer digits grouped
  in threes by full stops, a comma, and exactly two decimal digits; the digits are those
  of the amount in centavos, rounded to the nearest (ties to even). The amount
  \<^verbatim>\<open>1234.5\<close> gives \<^verbatim>\<open>R$ 1.234,50\<close>. It is this string that the amount box, the 13th
  drawing call of the page, draws right-aligned (the table is claim C7).
\<close>

theorem valor_formatado_brl:
  "(py_float valor = Inr (Finite neg a) \<longrightarrow>
     (\<exists>ip d1 d2.
         valor_formatado (Finite neg a) =
           ''R$ '' @ (if neg then ''-'' else []) @ ip @ '','' @ [d1, d2] \<and>
         brl_grouped ip \<and> is_digit d1 \<and> is_digit d2 \<and>
         digits_val (filter is_digit ip @ [d1, d2]) = round_half_even (a * 100))) \<and>
   py_float ''1234.5'' = Inr (Finite False (2469 / 2)) \<and>
   valor_formatado (Finite False (2469 / 2)) = ''R$ 1.234,50'' \<and>
   (gerar_recibo_pdf_memoria d = Inr ops \<and> d ''valor'' = Some s \<and> py_float s = Inr v \<longrightarrow>
      ops ! 12 =
        DrawRightString (float_sub (float_add box_x box_w) 8)
          (float_sub (float_add box_y (float_div box_h 2)) 4) (valor_formatado v))"
proof -
  have "\<exists>ip d1 d2.
         valor_formatado (Finite neg a) =
           ''R$ '' @ (if neg then ''-'' else []) @ ip @ '','' @ [d1, d2] \<and>
         brl_grouped ip \<and> is_digit d1 \<and> is_digit d2 \<and>
         digits_val (filter is_digit ip @ [d1, d2]) = round_half_even (a * 100)"
    if "py_float valor = Inr (Finite neg a)"
  proof -
    have "0 \<le> a" using py_float_Finite [OF that] by simp
    then show ?thesis by (rule valor_formatado_Finite)
  qed
  moreover have "py_float ''1234.5'' = Inr (Finite False (2469 / 2))" by code_simp
  moreover have "valor_formatado (Finite False (2469 / 2)) = ''R$ 1.234,50''" by code_simp
  moreover have "ops ! 12 =
        DrawRightString (float_sub (float_add box_x box_w) 8)
          (float_sub (float_add box_y (float_div box_h 2)) 4) (valor_formatado v)"
    if "gerar_recibo_pdf_memoria d = Inr ops \<and> d ''valor'' = Some s \<and> py_float s = Inr v"
    using that amount_box_gerar [of d ops s v] by simp
  ultimately show ?thesis by blast
qed

theorem valor_formatado_brl_witness:
  "py_float ''-1234567.891'' = Inr (Finite True (5302428716536693 / 4294967296)) \<and>
   valor_formatado (Finite True (5302428716536693 / 4294967296)) = ''R$ -1.234.567,89'' \<and>
   brl_grouped ''1.234.567'' \<and>
   gerar_recibo_pdf_memoria recibo_exemplo = Inr (projr (gerar_recibo_pdf_memoria recibo_exemplo)) \<and>
   recibo_exemplo ''valor'' = Some ''444444.8'' \<and>
   py_float ''444444.8'' = Inr (Finite False (7635503523509043 / 17179869184)) \<and>
   text_of (projr (gerar_recibo_pdf_memoria recibo_exemplo) ! 12) = ''R$ 444.444,80''"
proof -
  have v: "recibo_exemplo ''valor'' = Some ''444444.8''" by (simp add: recibo_exemplo_def)
  have e: "valor_formatado (Finite False (7635503523509043 / 17179869184)) = ''R$ 444.444,80''"
    by code_simp
  have p: "py_float ''-1234567.891'' = Inr (Finite True (5302428716536693 / 4294967296))"
    by code_simp
  have f: "valor_formatado (Finite True (5302428716536693 / 4294967296)) = ''R$ -1.234.567,89''"
    by code_simp
  have g: "brl_grouped ''1.234.567''" by code_simp
  show ?thesis
    using p f g v e gerar_recibo_exemplo py_float_444444_8
      valor_formatado_brl [where valor = "''-1234567.891''" and neg = True
        and a = "5302428716536693 / 4294967296" and d = recibo_exemplo
        and ops = "projr (gerar_recibo_pdf_memoria recibo_exemplo)" and s = "''444444.8''"
        and v = "Finite False (7635503523509043 / 17179869184)"]
    by simp
qed

text \<open>
  Claim C6. The lines drawn in the box of the amount in words are the first two lines of
  the loop, so at most two. The loop gives a text of at most 90 characters one line;
  a longer text is broken at the last space among its first 90 characters, the space
  dropped, and if there is no space there it is cut after 90 characters. A text of 95
  characters with a space among its characters 6 to 90 (as the words of an amount have) is
  drawn on exactly two lines that are the text with one space taken out, the first line
  shorter than 90 characters and no later space within the budget.
\<close>

theorem extenso_two_lines:
  "(gerar_recibo_pdf_memoria d = Inr ops \<longrightarrow>
      extenso_drawn ops = take 2 (lines_loop (with_period (get d ''valor_extenso'' [])) []) \<and>
      length (extenso_drawn ops) \<le> 2) \<and>
   (t \<noteq> [] \<and> length t \<le> 90 \<longrightarrow> lines_loop t ls = ls @ [t]) \<and>
   (90 < length t \<and> CHR '' '' \<notin> set (take 90 t) \<longrightarrow>
      lines_loop t ls = lines_loop (drop 90 t) (ls @ [take 90 t])) \<and>
   (90 < length t \<and> k < 90 \<and> t ! k = CHR '' '' \<and> (\<forall>j. k < j \<and> j < 90 \<longrightarrow> t ! j \<noteq> CHR '' '') \<longrightarrow>
      lines_loop t ls = lines_loop (drop (Suc k) t) (ls @ [take k t])) \<and>
   (gerar_recibo_pdf_memoria d = Inr ops \<and> d ''valor_extenso'' = Some s \<and> length s = 95 \<and>
    5 \<le> i \<and> i < 90 \<and> s ! i = CHR '' '' \<longrightarrow>
      (\<exists>l1 l2. extenso_drawn ops = [l1, l2] \<and> with_period s = l1 @ '' '' @ l2 \<and>
               length l1 < 90 \<and> l2 \<noteq> [] \<and> length l2 \<le> 90 \<and>
               CHR '' '' \<notin> set (take (89 - length l1) l2)))"
proof (intro conjI impI)
  assume g: "gerar_recibo_pdf_memoria d = Inr ops"
  show "extenso_drawn ops = take 2 (lines_loop (with_period (get d ''valor_extenso'' [])) [])"
    using extenso_drawn_gerar [OF g] by (simp add: extenso_lines_def)
  then show "length (extenso_drawn ops) \<le> 2" by simp
next
  assume "t \<noteq> [] \<and> length t \<le> 90"
  then show "lines_loop t ls = ls @ [t]" by (simp add: lines_loop_short)
next
  assume "90 < length t \<and> CHR '' '' \<notin> set (take 90 t)"
  then show "lines_loop t ls = lines_loop (drop 90 t) (ls @ [take 90 t])"
    by (simp add: lines_loop_hard)
next
  assume "90 < length t \<and> k < 90 \<and> t ! k = CHR '' '' \<and> (\<forall>j. k < j \<and> j < 90 \<longrightarrow> t ! j \<noteq> CHR '' '')"
  then show "lines_loop t ls = lines_loop (drop (Suc k) t) (ls @ [take k t])"
    by (intro lines_loop_space) simp_all
next
  assume a: "gerar_recibo_pdf_memoria d = Inr ops \<and> d ''valor_extenso'' = Some s \<and>
    length s = 95 \<and> 5 \<le> i \<and> i < 90 \<and> s ! i = CHR '' ''"
  define u where "u = with_period s"
  have len: "90 < length u" "length u \<le> i + 91"
    using a by (auto simp: u_def with_period_def)
  have ui: "u ! i = CHR '' ''"
    using a by (auto simp: u_def with_period_def nth_append)
  from lines_loop_two [OF len(1) _ ui len(2), of "[]"] a
  obtain k where k: "k < 90" "u ! k = CHR '' ''" "\<forall>j. k < j \<and> j < 90 \<longrightarrow> u ! j \<noteq> CHR '' ''"
    and l2: "drop (Suc k) u \<noteq> []" "length (drop (Suc k) u) \<le> 90"
    and l: "lines_loop u [] = [take k u, drop (Suc k) u]"
    by auto
  have d: "extenso_drawn ops = [take k u, drop (Suc k) u]"
    using a extenso_drawn_gerar [of d ops] l
    by (simp add: extenso_lines_def get_def u_def)
  have split: "u = take k u @ '' '' @ drop (Suc k) u"
    using id_take_nth_drop [of k u] k len(1) by simp
  have l1: "length (take k u) < 90" using k(1) len(1) by simp
  have nosp: "CHR '' '' \<notin> set (take (89 - length (take k u)) (drop (Suc k) u))"
  proof
    assume "CHR '' '' \<in> set (take (89 - length (take k u)) (drop (Suc k) u))"
    then obtain j where j: "j < length (take (89 - length (take k u)) (drop (Suc k) u))"
      and e: "take (89 - length (take k u)) (drop (Suc k) u) ! j = CHR '' ''"
      by (auto simp: in_set_conv_nth)
    have kk: "length (take k u) = k" using k(1) len(1) by simp
    from j have j89: "j < 89 - k" unfolding kk by simp
    with e have "u ! (Suc k + j) = CHR '' ''" using len(1) unfolding kk by simp
    moreover have "k < Suc k + j \<and> Suc k + j < 90" using j89 by simp
    ultimately show False using k(3) by blast
  qed
  show "\<exists>l1 l2. extenso_drawn ops = [l1, l2] \<and> with_period s = l1 @ '' '' @ l2 \<and>
               length l1 < 90 \<and> l2 \<noteq> [] \<and> length l2 \<le> 90 \<and>
               CHR '' '' \<notin> set (take (89 - length l1) l2)"
    using d split l1 l2 nosp unfolding u_def by blast
qed

theorem extenso_two_lines_witness:
  "gerar_recibo_pdf_memoria recibo_exemplo = Inr (projr (gerar_recibo_pdf_memoria recibo_exemplo)) \<and>
   recibo_exemplo ''valor_extenso'' =
     Some ''quatrocentos e quarenta e quatro mil, quatrocentos e quarenta e quatro reais e oitenta centavos'' \<and>
   length ''quatrocentos e quarenta e quatro mil, quatrocentos e quarenta e quatro reais e oitenta centavos'' = 95 \<and>
   (5::nat) \<le> 86 \<and> (86::nat) < 90 \<and>
   ''quatrocentos e quarenta e quatro mil, quatrocentos e quarenta e quatro reais e oitenta centavos'' ! 86 = CHR '' '' \<and>
   extenso_drawn (projr (gerar_recibo_pdf_memoria recibo_exemplo)) =
     [''quatrocentos e quarenta e quatro mil, quatrocentos e quarenta e quatro reais e oitenta'',
      ''centavos.'']"
proof -
  have l: "lines_loop (with_period (get recibo_exemplo ''valor_extenso'' [])) [] =
     [''quatrocentos e quarenta e quatro mil, quatrocentos e quarenta e quatro reais e oitenta'',
      ''centavos.'']"
    by code_simp
  have s: "recibo_exemplo ''valor_extenso'' =
     Some ''quatrocentos e quarenta e quatro mil, quatrocentos e quarenta e quatro reais e oitenta centavos''"
    by (simp add: recibo_exemplo_def)
  show ?thesis
    using gerar_recibo_exemplo s l
      extenso_two_lines [of recibo_exemplo "projr (gerar_recibo_pdf_memoria recibo_exemplo)"]
    by simp
qed

text \<open>
  Claim C7. On every page the row \<^verbatim>\<open>VALOR TOTAL\<close> and the row \<^verbatim>\<open>MENSALIDADE\<close> of the table
  carry the same string, the formatted amount of the record; the other two rows carry
  the placeholder \<^verbatim>\<open>R$ -\<close>.
\<close>

theorem total_row_is_mensalidade:
  assumes "gerar_recibo_pdf_memoria d = Inr ops"
  shows "\<exists>valor v. d ''valor'' = Some valor \<and> py_float valor = Inr v \<and>
           row_value ''MENSALIDADE'' ops = Some (valor_formatado v) \<and>
           row_value ''VALOR TOTAL'' ops = Some (valor_formatado v) \<and>
           row_value ''ALT. CONTRATO'' ops = Some ''R$ -'' \<and>
           row_value (''REGULARIZA'' @ [CHR 0xC7, CHR 0xC3] @ ''O'') ops = Some ''R$ -''"
proof -
  from gerar_Inr_D [OF assms] obtain valor v where
    v: "d ''valor'' = Some valor" "py_float valor = Inr v" by blast
  with row_values_gerar [OF assms v] show ?thesis by blast
qed

theorem total_row_is_mensalidade_witness:
  "gerar_recibo_pdf_memoria recibo_exemplo = Inr (projr (gerar_recibo_pdf_memoria recibo_exemplo)) \<and>
   row_value ''MENSALIDADE'' (projr (gerar_recibo_pdf_memoria recibo_exemplo)) = Some ''R$ 444.444,80'' \<and>
   row_value ''VALOR TOTAL'' (projr (gerar_recibo_pdf_memoria recibo_exemplo)) = Some ''R$ 444.444,80''"
proof -
  have f: "valor_formatado (Finite False (7635503523509043 / 17179869184)) = ''R$ 444.444,80''"
    by code_simp
  have v: "recibo_exemplo ''valor'' = Some ''444444.8''" by (simp add: recibo_exemplo_def)
  from total_row_is_mensalidade [OF gerar_recibo_exemplo] v py_float_444444_8 f
  have "row_value ''MENSALIDADE'' (projr (gerar_recibo_pdf_memoria recibo_exemplo)) = Some ''R$ 444.444,80'' \<and>
   row_value ''VALOR TOTAL'' (projr (gerar_recibo_pdf_memoria recibo_exemplo)) = Some ''R$ 444.444,80''"
    by auto
  with gerar_recibo_exemplo show ?thesis by simp
qed

text \<open>
  Claim C9, as amended. The text that is wrapped ends with a full stop whenever the
  amount in words of the record is not empty: one is appended when the string does not
  end with one, and none is added when it does. The text drawn ends with that full stop
  whenever the wrapped text takes at most two lines; the lines after the second are not
  drawn, and with them the full stop of a longer text.
\<close>

theorem extenso_period:
  "(s \<noteq> [] \<and> \<not> endswith s ''.'' \<longrightarrow> with_period s = s @ ''.'') \<and>
   (endswith s ''.'' \<longrightarrow> with_period s = s) \<and>
   (s \<noteq> [] \<longrightarrow> endswith (with_period s) ''.'') \<and>
   (gerar_recibo_pdf_memoria d = Inr ops \<and> get d ''valor_extenso'' [] = s \<and> s \<noteq> [] \<and>
    length (lines_loop (with_period s) []) \<le> 2 \<longrightarrow>
      extenso_drawn ops = lines_loop (with_period s) [] \<and>
      extenso_drawn ops \<noteq> [] \<and> endswith (last (extenso_drawn ops)) ''.'')"
proof (intro conjI impI)
  assume "s \<noteq> [] \<and> \<not> endswith s ''.''"
  then show "with_period s = s @ ''.''" by (simp add: with_period_def)
next
  assume "endswith s ''.''"
  then show "with_period s = s" by (simp add: with_period_def)
next
  assume "s \<noteq> []"
  then show "endswith (with_period s) ''.''"
    by (auto simp: endswith_period with_period_last) (simp add: with_period_def split: if_splits)
next
  assume a: "gerar_recibo_pdf_memoria d = Inr ops \<and> get d ''valor_extenso'' [] = s \<and> s \<noteq> [] \<and>
    length (lines_loop (with_period s) []) \<le> 2"
  then have ne: "with_period s \<noteq> []" by (auto simp: with_period_def)
  show e: "extenso_drawn ops = lines_loop (with_period s) []"
    using a extenso_drawn_gerar [of d ops] by (simp add: extenso_lines_def)
  from lines_loop_last [OF ne, of "[]"] a
  show "extenso_drawn ops \<noteq> []" "endswith (last (extenso_drawn ops)) ''.''"
    by (simp_all add: e endswith_period with_period_last)
qed

theorem extenso_period_witness:
  "gerar_recibo_pdf_memoria recibo_exemplo = Inr (projr (gerar_recibo_pdf_memoria recibo_exemplo)) \<and>
   get recibo_exemplo ''valor_extenso'' [] \<noteq> [] \<and>
   length (lines_loop (with_period (get recibo_exemplo ''valor_extenso'' [])) []) \<le> 2 \<and>
   extenso_drawn (projr (gerar_recibo_pdf_memoria recibo_exemplo)) =
     [''quatrocentos e quarenta e quatro mil, quatrocentos e quarenta e quatro reais e oitenta'',
      ''centavos.''] \<and>
   endswith (last (extenso_drawn (projr (gerar_recibo_pdf_memoria recibo_exemplo)))) ''.''"
proof -
  have l: "lines_loop (with_period (get recibo_exemplo ''valor_extenso'' [])) [] =
     [''quatrocentos e quarenta e quatro mil, quatrocentos e quarenta e quatro reais e oitenta'',
      ''centavos.'']"
    by code_simp
  have s: "get recibo_exemplo ''valor_extenso'' [] \<noteq> []"
    by (simp add: recibo_exemplo_def get_def)
  show ?thesis
    using gerar_recibo_exemplo s l
      extenso_period [of "get recibo_exemplo ''valor_extenso'' []" recibo_exemplo
               "projr (gerar_recibo_pdf_memoria recibo_exemplo)"]
    by (simp add: endswith_def)
qed

text \<open>
  The claim as it was stated fails for a text of 200 characters: it wraps into three
  lines, the two lines drawn are 90 characters each, and the second does not end with a
  full stop.
\<close>

theorem extenso_period_not_drawn:
  "gerar_recibo_pdf_memoria recibo_longo = Inr (projr (gerar_recibo_pdf_memoria recibo_longo)) \<and>
   extenso_drawn (projr (gerar_recibo_pdf_memoria recibo_longo)) =
     [replicate 90 (CHR ''a''), replicate 90 (CHR ''a'')] \<and>
   \<not> endswith (last (extenso_drawn (projr (gerar_recibo_pdf_memoria recibo_longo)))) ''.''"
proof -
  have l: "take 2 (extenso_lines recibo_longo) = [replicate 90 (CHR ''a''), replicate 90 (CHR ''a'')]"
    by code_simp
  have n: "\<not> endswith (replicate 90 (CHR ''a'')) ''.''"
    by code_simp
  show ?thesis
    using gerar_recibo_longo extenso_drawn_gerar [OF gerar_recibo_longo] l n by simp
qed

end
